theory Spec2Isabelle
  imports Complex_Main "HOL-Library.AList"
begin

section \<open>Python strings\<close>

text \<open>
  A Python \<open>str\<close> is a \<open>string\<close> here, one \<open>char\<close> per code point, so the texts
  covered are those whose code points lie below 256. \<open>isspace\<close> is Python's
  \<open>str.isspace\<close> on that range; \<open>str.strip()\<close> and the regular expression class
  \<open>\s\<close> both use it. \<open>isdigit\<close> is the class \<open>\d\<close>, which below 256 holds the ten
  ASCII digits only.
\<close>

definition isspace :: "char \<Rightarrow> bool" where
  "isspace c = (c \<in> set [CHR 0x09, CHR 0x0A, CHR 0x0B, CHR 0x0C, CHR 0x0D, CHR 0x1C,
     CHR 0x1D, CHR 0x1E, CHR 0x1F, CHR 0x20, CHR 0x85, CHR 0xA0])"

definition isdigit :: "char \<Rightarrow> bool" where
  "isdigit c = (c \<in> set ''0123456789'')"

definition strip :: "string \<Rightarrow> string" where
  "strip s = rev (dropWhile isspace (rev (dropWhile isspace s)))"

definition startswith :: "string \<Rightarrow> string \<Rightarrow> bool" where
  "startswith s p = (take (length p) s = p)"

text \<open>\<open>s.split(sep)\<close> for a one-character separator: always at least one piece.\<close>

fun str_split :: "char \<Rightarrow> string \<Rightarrow> string list" where
  "str_split sep [] = [[]]"
| "str_split sep (c # cs) =
     (if c = sep then [] # str_split sep cs
      else (case str_split sep cs of [] \<Rightarrow> [[c]] | l # ls \<Rightarrow> (c # l) # ls))"

section \<open>The regular expressions of the parser\<close>

text \<open>
  \<open>\d+:\<close> at the head of a string: the number of characters matched. The greedy run of
  digits cannot give a digit back to \<open>:\<close>, so the longest run decides.
\<close>

definition digits_colon :: "string \<Rightarrow> nat option" where
  "digits_colon s =
     (let ds = takeWhile isdigit s in
      case dropWhile isdigit s of
        [] \<Rightarrow> None
      | c # _ \<Rightarrow> if ds \<noteq> [] \<and> c = CHR '':'' then Some (length ds + 1) else None)"

text \<open>
  \<open>question_pattern = r'Q\d+:|Question \d+:'\<close> tried at the head of a string, the
  alternatives in the order written; the result is the length of the match.
\<close>

definition question_pattern :: "string \<Rightarrow> nat option" where
  "question_pattern s =
     (case (if startswith s ''Q'' then digits_colon (drop 1 s) else None) of
        Some n \<Rightarrow> Some (1 + n)
      | None \<Rightarrow>
          (if startswith s ''Question '' then
             (case digits_colon (drop 9 s) of Some n \<Rightarrow> Some (9 + n) | None \<Rightarrow> None)
           else None))"

text \<open>The leftmost match of \<open>question_pattern\<close>: its start and its length.\<close>

fun re_search :: "string \<Rightarrow> (nat \<times> nat) option" where
  "re_search [] = None"
| "re_search (c # cs) =
     (case question_pattern (c # cs) of
        Some n \<Rightarrow> Some (0, n)
      | None \<Rightarrow> (case re_search cs of Some (i, n) \<Rightarrow> Some (Suc i, n) | None \<Rightarrow> None))"

lemma digits_colon_bounds: "digits_colon s = Some n \<Longrightarrow> 0 < n \<and> n \<le> length s"
proof -
  assume a: "digits_colon s = Some n"
  have "length (takeWhile isdigit s) + length (dropWhile isdigit s) = length s"
    by (metis length_append takeWhile_dropWhile_id)
  with a show ?thesis
    by (auto simp: digits_colon_def Let_def split: list.splits if_splits)
qed

lemma question_pattern_bounds: "question_pattern s = Some n \<Longrightarrow> 0 < n \<and> n \<le> length s"
proof -
  assume a: "question_pattern s = Some n"
  show ?thesis
  proof (cases "if startswith s ''Q'' then digits_colon (drop 1 s) else None")
    case (Some m)
    then have q: "startswith s ''Q''" and m: "digits_colon (drop 1 s) = Some m"
      by (auto split: if_splits)
    from q have "1 \<le> length s" by (cases s) (auto simp: startswith_def)
    with digits_colon_bounds[OF m] a Some show ?thesis
      by (auto simp: question_pattern_def)
  next
    case None
    with a obtain m where q: "startswith s ''Question ''"
      and m: "digits_colon (drop 9 s) = Some m" and n: "n = 9 + m"
      by (auto simp: question_pattern_def split: if_splits option.splits)
    from q have "length (take (length ''Question '') s) = length ''Question ''"
      by (simp only: startswith_def)
    then have "9 \<le> length s" by simp
    with digits_colon_bounds[OF m] n show ?thesis by auto
  qed
qed

lemma re_search_bounds: "re_search s = Some (i, n) \<Longrightarrow> 0 < n \<and> i + n \<le> length s"
proof (induction s arbitrary: i)
  case Nil
  then show ?case by simp
next
  case (Cons c cs)
  show ?case
  proof (cases "question_pattern (c # cs)")
    case (Some m)
    with Cons.prems question_pattern_bounds[OF Some] show ?thesis by auto
  next
    case None
    with Cons.prems obtain j where "re_search cs = Some (j, n)" "i = Suc j"
      by (auto split: option.splits)
    with Cons.IH[of j] show ?thesis by auto
  qed
qed

text \<open>
  \<open>re.split(question_pattern, text)\<close>: the text before each leftmost match in turn, then
  the rest. The pattern has no group, so the markers themselves are not returned.
\<close>

function re_split :: "string \<Rightarrow> string list" where
  "re_split s =
     (case re_search s of
        None \<Rightarrow> [s]
      | Some (i, n) \<Rightarrow> take i s # re_split (drop (i + n) s))"
  by pat_completeness auto
termination
proof (relation "measure length")
  show "wf (measure length)" by simp
next
  fix s :: string and x2 :: "nat \<times> nat" and i n :: nat
  assume "re_search s = Some x2" "(i, n) = x2"
  then have "re_search s = Some (i, n)" by simp
  from re_search_bounds[OF this] have "length s - (i + n) < length s" by arith
  then show "(drop (i + n) s, s) \<in> measure length" by simp
qed

declare re_split.simps [simp del]

text \<open>
  \<open>(.+)$\<close>: one or more characters other than a newline, up to the end of the string
  or to a newline that is its last character. The result is the group.
\<close>

definition dot_plus_end :: "string \<Rightarrow> string option" where
  "dot_plus_end s =
     (let t = takeWhile (\<lambda>c. c \<noteq> CHR ''\<newline>'') s;
          r = dropWhile (\<lambda>c. c \<noteq> CHR ''\<newline>'') s
      in if t \<noteq> [] \<and> (r = [] \<or> r = ''\<newline>'') then Some t else None)"

text \<open>\<open>.*$\<close>: whether the rest of the string matches.\<close>

definition dot_star_end :: "string \<Rightarrow> bool" where
  "dot_star_end s =
     (let r = dropWhile (\<lambda>c. c \<noteq> CHR ''\<newline>'') s in r = [] \<or> r = ''\<newline>'')"

text \<open>
  \<open>\s*\<close> and \<open>\s+\<close> followed by the rest of a pattern \<open>k\<close>, as the backtracking matcher
  runs them: the longest run of whitespace first, one character given back at a time
  while the rest fails.
\<close>

fun ws_star :: "(string \<Rightarrow> 'a option) \<Rightarrow> string \<Rightarrow> 'a option" where
  "ws_star k [] = k []"
| "ws_star k (c # cs) =
     (if isspace c then (case ws_star k cs of Some r \<Rightarrow> Some r | None \<Rightarrow> k (c # cs))
      else k (c # cs))"

definition ws_plus :: "(string \<Rightarrow> 'a option) \<Rightarrow> string \<Rightarrow> 'a option" where
  "ws_plus k s = (case s of [] \<Rightarrow> None | c # cs \<Rightarrow> if isspace c then ws_star k cs else None)"

text \<open>
  \<open>option_match = re.match(r'^([A-D])[.:]?\s+(.+)$', line)\<close>: the two groups, or \<open>None\<close>.
  The optional \<open>.\<close> or \<open>:\<close> is taken first and given back if the rest fails.
\<close>

definition option_match :: "string \<Rightarrow> (char \<times> string) option" where
  "option_match line =
     (case line of
        [] \<Rightarrow> None
      | letter # r \<Rightarrow>
          if letter \<in> set ''ABCD'' then
            (case (case r of
                     [] \<Rightarrow> None
                   | p # r' \<Rightarrow> if p = CHR ''.'' \<or> p = CHR '':'' then ws_plus dot_plus_end r'
                              else None) of
               Some t \<Rightarrow> Some (letter, t)
             | None \<Rightarrow> (case ws_plus dot_plus_end r of Some t \<Rightarrow> Some (letter, t) | None \<Rightarrow> None))
          else None)"

text \<open>
  \<open>answer_match = re.match(r'^Answer:?\s+([A-D]).*$', line)\<close>: the group, or \<open>None\<close>.
\<close>

definition answer_letter :: "string \<Rightarrow> char option" where
  "answer_letter s =
     (case s of
        [] \<Rightarrow> None
      | c # cs \<Rightarrow> if c \<in> set ''ABCD'' \<and> dot_star_end cs then Some c else None)"

definition answer_match :: "string \<Rightarrow> char option" where
  "answer_match line =
     (if startswith line ''Answer'' then
        (let r = drop 6 line in
         case (case r of
                 [] \<Rightarrow> None
               | p # r' \<Rightarrow> if p = CHR '':'' then ws_plus answer_letter r' else None) of
           Some a \<Rightarrow> Some a
         | None \<Rightarrow> ws_plus answer_letter r)
      else None)"

section \<open>The question parser\<close>

text \<open>
  The dictionary a parsed question is. \<open>options\<close> is a Python \<open>dict\<close>: an association
  list in insertion order, a key written again keeping its place.
\<close>

record quiz_question =
  question :: string
  options :: "(char \<times> string) list"
  answer :: char
  explanation :: string

text \<open>The local variables \<open>options\<close>, \<open>answer\<close> and \<open>explanation\<close> of the loop over the lines.\<close>

record scan_state =
  l_options :: "(char \<times> string) list"
  l_answer :: "char option"
  l_explanation :: "string option"

definition scan_init :: scan_state where
  "scan_init = \<lparr>l_options = [], l_answer = None, l_explanation = None\<rparr>"

text \<open>One round of \<open>for line in lines[1:]\<close>.\<close>

definition scan_line :: "scan_state \<Rightarrow> string \<Rightarrow> scan_state" where
  "scan_line st raw =
     (let line = strip raw in
      if line = [] then st
      else
        let option_m = option_match line;
            answer_m = answer_match line;
            st1 = (case option_m of
                     Some (letter, t) \<Rightarrow> st\<lparr>l_options := AList.update letter t (l_options st)\<rparr>
                   | None \<Rightarrow> st);
            st2 = (case answer_m of Some a \<Rightarrow> st1\<lparr>l_answer := Some a\<rparr> | None \<Rightarrow> st1)
        in if startswith line ''Explanation:'' then
             st2\<lparr>l_explanation := Some (strip (drop 12 line))\<rparr>
           else
             (case l_explanation st2 of
                None \<Rightarrow> st2
              | Some e \<Rightarrow>
                  if e \<noteq> [] \<and> option_m = None \<and> answer_m = None \<and> \<not> startswith line ''Q''
                  then st2\<lparr>l_explanation := Some (e @ '' '' @ line)\<rparr>
                  else st2))"

text \<open>
  The body of \<open>for i, raw_q in enumerate(raw_questions)\<close>: the question appended, or
  \<open>None\<close> when the segment is skipped. \<open>correct_index\<close> is computed by the source and not
  used; it is left out.
\<close>

definition parse_segment :: "string \<Rightarrow> quiz_question option" where
  "parse_segment raw_q =
     (case str_split CHR ''\<newline>'' raw_q of
        [] \<Rightarrow> None
      | first # rest \<Rightarrow>
          (let question_text = strip first;
               st = foldl scan_line scan_init rest
           in case l_answer st of
                None \<Rightarrow> None
              | Some a \<Rightarrow>
                  (case l_explanation st of
                     None \<Rightarrow> None
                   | Some e \<Rightarrow>
                       if question_text \<noteq> [] \<and> l_options st \<noteq> [] \<and> e \<noteq> []
                          \<and> length (l_options st) = 4
                       then Some \<lparr>question = question_text, options = l_options st,
                                   answer = a, explanation = e\<rparr>
                       else None)))"

definition parse_questions :: "string \<Rightarrow> quiz_question list" where
  "parse_questions text =
     (let raw_questions = re_split text;
          raw_questions = map strip (filter (\<lambda>q. strip q \<noteq> []) raw_questions)
      in List.map_filter parse_segment raw_questions)"

text \<open>
  Pieces put back together with the markers that stood between them: what
  \<open>re.split\<close> took \<open>text\<close> apart into.
\<close>

fun rejoin :: "string list \<Rightarrow> string list \<Rightarrow> string" where
  "rejoin [] ms = []"
| "rejoin (p # ps) [] = p @ concat ps"
| "rejoin (p # ps) (m # ms) = p @ m @ rejoin ps ms"

text \<open>
  The lines the loop appends to a started explanation: after trimming, not empty, no
  match of either pattern, and neither \<open>startswith('Explanation:')\<close> nor
  \<open>startswith('Q')\<close> (the conditions of the loop's \<open>if\<close> and \<open>elif\<close>).
\<close>

definition is_continuation :: "string \<Rightarrow> bool" where
  "is_continuation raw =
     (let line = strip raw in
      line \<noteq> [] \<and> option_match line = None \<and> answer_match line = None
      \<and> \<not> startswith line ''Explanation:'' \<and> \<not> startswith line ''Q'')"

text \<open>
  The letters of a segment's option lines: the first groups of \<open>option_match\<close> over
  \<open>lines[1:]\<close>, each line trimmed as the loop trims it.
\<close>

definition option_letters :: "string \<Rightarrow> char set" where
  "option_letters raw_q =
     fst ` set (List.map_filter (\<lambda>l. option_match (strip l)) (tl (str_split CHR ''\<newline>'' raw_q)))"

section \<open>The quiz generator\<close>

text \<open>
  What the source raises. \<open>ClientError\<close> is botocore's, raised by a call to an AWS
  service; the others are Python's own.
\<close>

datatype error =
  ValueError string | ClientError | ZeroDivisionError | EOFError | JSONDecodeError
  | AttributeError

text \<open>
  The two prompt templates are f-strings over the topic, the difficulty and the number
  of questions; each is kept as a constructor with the values it embeds. The knowledge
  base is the external service: \<open>retrieve_and_generate(query, prompt_template)\<close> answers
  with generated text or raises.
\<close>

datatype prompt = TopicPrompt string string int | GeneralPrompt string int

type_synonym knowledge_base = "string \<Rightarrow> prompt \<Rightarrow> error + string"

text \<open>
  \<open>str.lower()\<close> and \<open>str.upper()\<close> on the ASCII letters; other characters are left as
  they are. The source only compares the results with ASCII strings.
\<close>

definition lower :: "string \<Rightarrow> string" where
  "lower s =
     map (\<lambda>c. case map_of (zip ''ABCDEFGHIJKLMNOPQRSTUVWXYZ'' ''abcdefghijklmnopqrstuvwxyz'') c of
                 Some d \<Rightarrow> d | None \<Rightarrow> c) s"

definition upper :: "string \<Rightarrow> string" where
  "upper s =
     map (\<lambda>c. case map_of (zip ''abcdefghijklmnopqrstuvwxyz'' ''ABCDEFGHIJKLMNOPQRSTUVWXYZ'') c of
                 Some d \<Rightarrow> d | None \<Rightarrow> c) s"

definition create_topic_quiz ::
  "knowledge_base \<Rightarrow> string \<Rightarrow> string \<Rightarrow> int \<Rightarrow> error + quiz_question list" where
  "create_topic_quiz kb topic difficulty num_questions =
     (case kb (''Tell me about '' @ topic @ '' for a certification exam'')
              (TopicPrompt topic difficulty num_questions) of
        Inl e \<Rightarrow> Inl e
      | Inr generated_text \<Rightarrow> Inr (parse_questions generated_text))"

definition create_general_quiz ::
  "knowledge_base \<Rightarrow> string \<Rightarrow> int \<Rightarrow> error + quiz_question list" where
  "create_general_quiz kb difficulty num_questions =
     (case kb ''Give me diverse information from different topics for a general knowledge quiz''
              (GeneralPrompt difficulty num_questions) of
        Inl e \<Rightarrow> Inl e
      | Inr generated_text \<Rightarrow> Inr (parse_questions generated_text))"

definition create_quiz ::
  "knowledge_base \<Rightarrow> string \<Rightarrow> string \<Rightarrow> int \<Rightarrow> error + quiz_question list" where
  "create_quiz kb topic difficulty num_questions =
     (if lower topic = ''general knowledge'' then create_general_quiz kb difficulty num_questions
      else create_topic_quiz kb topic difficulty num_questions)"

section \<open>The result store\<close>

text \<open>
  An item of the DynamoDB table. \<open>score\<close> is a Python float written as a \<open>Decimal\<close>;
  it is a real number here, computed exactly.
\<close>

record quiz_result =
  user_id :: string
  timestamp :: string
  topic :: string
  score :: real
  num_questions :: int
  difficulty :: string

text \<open>
  The table as the client sees it: its items, and whether the service fails the
  calls made to it (each call then raises \<open>ClientError\<close>).
\<close>

record dynamodb_client =
  table_items :: "quiz_result list"
  failing :: bool

text \<open>\<open>table.put_item\<close>: an item with the same key (user_id, timestamp) is replaced.\<close>

definition put_item :: "dynamodb_client \<Rightarrow> quiz_result \<Rightarrow> error + dynamodb_client" where
  "put_item db item =
     (if failing db then Inl ClientError
      else Inr (db\<lparr>table_items :=
        filter (\<lambda>x. (user_id x, timestamp x) \<noteq> (user_id item, timestamp item)) (table_items db)
        @ [item]\<rparr>))"

text \<open>\<open>now\<close> is \<open>datetime.utcnow().isoformat()\<close> at the time of the call.\<close>

definition save_quiz_result ::
  "dynamodb_client \<Rightarrow> string \<Rightarrow> string \<Rightarrow> string \<Rightarrow> real \<Rightarrow> int \<Rightarrow> string
     \<Rightarrow> error + dynamodb_client" where
  "save_quiz_result db now uid tp sc n diff =
     put_item db \<lparr>user_id = uid, timestamp = now, topic = tp, score = sc,
                  num_questions = n, difficulty = diff\<rparr>"

text \<open>
  The query on \<open>TopicIndex\<close>: the items of a user and a topic. The source reads one
  response and asks for no further page; the response is taken to hold every match.
\<close>

definition query_topic_index ::
  "dynamodb_client \<Rightarrow> string \<Rightarrow> string \<Rightarrow> error + quiz_result list" where
  "query_topic_index db uid tp =
     (if failing db then Inl ClientError
      else Inr (filter (\<lambda>x. user_id x = uid \<and> topic x = tp) (table_items db)))"

record topic_statistics =
  attempts :: nat
  average_score :: real
  highest_score :: real
  lowest_score :: real
  total_questions :: int

definition get_topic_statistics ::
  "dynamodb_client \<Rightarrow> string \<Rightarrow> string \<Rightarrow> error + topic_statistics" where
  "get_topic_statistics db uid tp =
     (case query_topic_index db uid tp of
        Inl e \<Rightarrow> Inl e
      | Inr results \<Rightarrow>
          (case results of
             [] \<Rightarrow> Inr \<lparr>attempts = 0, average_score = 0, highest_score = 0, lowest_score = 0,
                        total_questions = 0\<rparr>
           | r # rs \<Rightarrow>
               (let scores = map score results
                in Inr \<lparr>attempts = length results,
                        average_score = sum_list scores / real (length scores),
                        highest_score = fold max (map score rs) (score r),
                        lowest_score = fold min (map score rs) (score r),
                        total_questions = sum_list (map num_questions results)\<rparr>)))"

section \<open>The quiz session\<close>

text \<open>
  The application object: \<open>self.user_id\<close>, \<open>self.quiz_generator\<close> (the generator holds
  nothing but its knowledge base) and \<open>self.db_client\<close>; the last two are \<open>None\<close> until
  \<open>initialize\<close> has run.
\<close>

record cert_quiz_app =
  self_user_id :: string
  quiz_generator :: "knowledge_base option"
  db_client :: "dynamodb_client option"

text \<open>
  The \<open>while True\<close> loop around \<open>input()\<close>. Standard input is the list of lines still
  to be read; \<open>input()\<close> at its end raises \<open>EOFError\<close>. The result is the answer
  accepted and the lines left.
\<close>

fun read_answer :: "string list \<Rightarrow> error + (string \<times> string list)" where
  "read_answer [] = Inl EOFError"
| "read_answer (l # ls) =
     (let user_answer = upper (strip l) in
      if user_answer \<in> set [''A'', ''B'', ''C'', ''D''] then Inr (user_answer, ls)
      else read_answer ls)"

text \<open>
  \<open>for i, q in enumerate(questions)\<close> with the counter \<open>correct_answers\<close>. What is
  printed is not modelled.
\<close>

fun ask_questions ::
  "quiz_question list \<Rightarrow> string list \<Rightarrow> nat \<Rightarrow> error + (nat \<times> string list)" where
  "ask_questions [] inp correct_answers = Inr (correct_answers, inp)"
| "ask_questions (q # qs) inp correct_answers =
     (case read_answer inp of
        Inl e \<Rightarrow> Inl e
      | Inr (user_answer, inp') \<Rightarrow>
          ask_questions qs inp'
            (if user_answer = [answer q] then correct_answers + 1 else correct_answers))"

text \<open>
  \<open>run_quiz\<close>: the value returned or the exception raised, and the application after
  the call. \<open>inp\<close> is standard input, \<open>now\<close> the clock read by \<open>save_quiz_result\<close>.
\<close>

definition run_quiz ::
  "cert_quiz_app \<Rightarrow> string \<Rightarrow> string \<Rightarrow> int \<Rightarrow> string list \<Rightarrow> string
     \<Rightarrow> (error + real) \<times> cert_quiz_app" where
  "run_quiz self tp diff n inp now =
     (case quiz_generator self of
        None \<Rightarrow> (Inl (ValueError ''Quiz generator not initialized''), self)
      | Some kb \<Rightarrow>
          (case create_quiz kb tp diff n of
             Inl e \<Rightarrow> (Inl e, self)
           | Inr questions \<Rightarrow>
               (case ask_questions questions inp 0 of
                  Inl e \<Rightarrow> (Inl e, self)
                | Inr (correct_answers, inp') \<Rightarrow>
                    if length questions = 0 then (Inl ZeroDivisionError, self)
                    else
                      (let sc = real correct_answers / real (length questions) * 100 in
                       case db_client self of
                         None \<Rightarrow> (Inr sc, self)
                       | Some db \<Rightarrow>
                           (case save_quiz_result db now (self_user_id self) tp sc n diff of
                              Inl e \<Rightarrow> (Inl e, self)
                            | Inr db' \<Rightarrow> (Inr sc, self\<lparr>db_client := Some db'\<rparr>))))))"

section \<open>The identity file\<close>

text \<open>
  What \<open>json.load\<close> gives for \<open>~/.cert_quiz/config.json\<close>: a string, an object (a Python
  dict, as the list of its entries) or any other value; or the file is not JSON at all.
\<close>

datatype json = JString string | JObject "(string \<times> json) list" | JOther

datatype file_content = Unparsable | Parsed json

text \<open>
  The installation: the identity file (\<open>None\<close> while it does not exist) and the number
  of identifiers \<open>uuid.uuid4()\<close> has handed out. \<open>uuid4 k\<close> is the text of the k-th.
\<close>

record installation =
  config_file :: "file_content option"
  uuid_count :: nat

text \<open>
  \<open>_get_or_create_user_id\<close>. The default argument of \<open>config.get\<close> is evaluated before
  the call, so an identifier is drawn whenever the file holds an object; on a value
  without \<open>get\<close> the attribute lookup raises first.
\<close>

definition get_or_create_user_id ::
  "(nat \<Rightarrow> string) \<Rightarrow> installation \<Rightarrow> (error + json) \<times> installation" where
  "get_or_create_user_id uuid4 w =
     (case config_file w of
        Some content \<Rightarrow>
          (case content of
             Unparsable \<Rightarrow> (Inl JSONDecodeError, w)
           | Parsed config \<Rightarrow>
               (case config of
                  JObject entries \<Rightarrow>
                    (let fresh = uuid4 (uuid_count w);
                         w' = w\<lparr>uuid_count := uuid_count w + 1\<rparr>
                     in (Inr (case map_of entries ''user_id'' of
                                Some v \<Rightarrow> v
                              | None \<Rightarrow> JString fresh), w'))
                | JString _ \<Rightarrow> (Inl AttributeError, w)
                | JOther \<Rightarrow> (Inl AttributeError, w)))
      | None \<Rightarrow>
          (let new_id = uuid4 (uuid_count w)
           in (Inr (JString new_id),
               w\<lparr>config_file := Some (Parsed (JObject [(''user_id'', JString new_id)])),
                 uuid_count := uuid_count w + 1\<rparr>)))"

text \<open>The installation after \<open>k\<close> calls of \<open>_get_or_create_user_id\<close>.\<close>

fun after_calls :: "(nat \<Rightarrow> string) \<Rightarrow> nat \<Rightarrow> installation \<Rightarrow> installation" where
  "after_calls uuid4 0 w = w"
| "after_calls uuid4 (Suc k) w = after_calls uuid4 k (snd (get_or_create_user_id uuid4 w))"

section \<open>Facts about the regular expressions and the line loop\<close>

lemma ws_star_Some: "ws_star k s = Some r \<Longrightarrow> \<exists>s'. k s' = Some r"
  by (induction s) (auto split: if_splits option.splits)

lemma ws_plus_Some: "ws_plus k s = Some r \<Longrightarrow> \<exists>s'. k s' = Some r"
  by (auto simp: ws_plus_def split: list.splits if_splits dest: ws_star_Some)

lemma dot_plus_end_Some: "dot_plus_end s = Some t \<Longrightarrow> t \<noteq> []"
  by (auto simp: dot_plus_end_def Let_def split: if_splits)

lemma option_match_Some:
  "option_match line = Some (l, t) \<Longrightarrow> l \<in> set ''ABCD'' \<and> t \<noteq> []"
  unfolding option_match_def
  by (auto split: list.splits if_splits option.splits dest!: ws_plus_Some dot_plus_end_Some)

lemma answer_letter_Some: "answer_letter s = Some a \<Longrightarrow> a \<in> set ''ABCD''"
  by (auto simp: answer_letter_def split: list.splits if_splits)

lemma answer_match_Some: "answer_match line = Some a \<Longrightarrow> a \<in> set ''ABCD''"
  unfolding answer_match_def Let_def
  by (auto split: list.splits if_splits option.splits dest!: ws_plus_Some answer_letter_Some)

lemma option_match_Nil: "option_match [] = None"
  by (simp add: option_match_def)

lemma answer_match_Nil: "answer_match [] = None"
  by (simp add: answer_match_def startswith_def)

lemma l_options_scan_line:
  "l_options (scan_line st raw) =
     (case option_match (strip raw) of
        Some (l, t) \<Rightarrow> AList.update l t (l_options st)
      | None \<Rightarrow> l_options st)"
  by (auto simp: scan_line_def Let_def option_match_Nil split: option.splits)

lemma l_answer_scan_line:
  "l_answer (scan_line st raw) =
     (case answer_match (strip raw) of Some a \<Rightarrow> Some a | None \<Rightarrow> l_answer st)"
  by (auto simp: scan_line_def Let_def answer_match_Nil split: option.splits)

subsection \<open>What the loop keeps true\<close>

lemma scan_lines_keys:
  "fst ` set (l_options st) \<subseteq> set ''ABCD'' \<Longrightarrow>
   fst ` set (l_options (foldl scan_line st ls)) \<subseteq> set ''ABCD''"
proof (induction ls arbitrary: st)
  case Nil
  then show ?case by simp
next
  case (Cons l ls)
  have "fst ` set (l_options (scan_line st l)) \<subseteq> set ''ABCD''"
  proof (cases "option_match (strip l)")
    case None
    with Cons.prems show ?thesis by (simp add: l_options_scan_line)
  next
    case (Some p)
    obtain k t where p: "p = (k, t)" by (cases p)
    from Some p option_match_Some have "k \<in> set ''ABCD''" by blast
    with Cons.prems Some p show ?thesis
      by (simp add: l_options_scan_line dom_update)
  qed
  from Cons.IH[OF this] show ?case by simp
qed

lemma scan_lines_distinct:
  "distinct (map fst (l_options st)) \<Longrightarrow>
   distinct (map fst (l_options (foldl scan_line st ls)))"
proof (induction ls arbitrary: st)
  case Nil
  then show ?case by simp
next
  case (Cons l ls)
  from Cons.prems have "distinct (map fst (l_options (scan_line st l)))"
    by (auto simp: l_options_scan_line distinct_update split: option.splits)
  from Cons.IH[OF this] show ?case by simp
qed

lemma scan_lines_answer:
  "l_answer (foldl scan_line st ls) = Some a \<Longrightarrow>
   l_answer st = Some a \<or> a \<in> set ''ABCD''"
proof (induction ls arbitrary: st)
  case Nil
  then show ?case by simp
next
  case (Cons l ls)
  from Cons.prems have "l_answer (foldl scan_line (scan_line st l) ls) = Some a" by simp
  from Cons.IH[OF this] show ?case
    by (auto simp: l_answer_scan_line split: option.splits dest: answer_match_Some)
qed

lemma parse_segment_Some:
  assumes "parse_segment seg = Some q"
  obtains first rest where
    "str_split CHR ''\<newline>'' seg = first # rest"
    "question q = strip first"
    "options q = l_options (foldl scan_line scan_init rest)"
    "l_answer (foldl scan_line scan_init rest) = Some (answer q)"
    "l_explanation (foldl scan_line scan_init rest) = Some (explanation q)"
    "question q \<noteq> []" "explanation q \<noteq> []" "length (options q) = 4"
  using assms unfolding parse_segment_def Let_def
  by (auto split: list.splits option.splits if_splits)

lemma four_keys:
  assumes "distinct (map fst xs)" "length xs = 4" "fst ` set xs \<subseteq> set ''ABCD''"
  shows "fst ` set xs = set ''ABCD''"
proof -
  have "card (set (map fst xs)) = length (map fst xs)" using assms(1) by (rule distinct_card)
  then have "card (set (map fst xs)) = 4" using assms(2) by simp
  moreover have "card (set ''ABCD'') = 4" by simp
  moreover have "set (map fst xs) \<subseteq> set ''ABCD''" using assms(3) by simp
  ultimately have "set (map fst xs) = set ''ABCD''"
    by (metis card_subset_eq List.finite_set)
  then show ?thesis by simp
qed

lemma parse_questions_mem:
  "q \<in> set (parse_questions text) \<Longrightarrow> \<exists>seg. parse_segment seg = Some q"
  by (auto simp: parse_questions_def Let_def List.map_filter_def)

subsection \<open>Options written twice\<close>

lemma map_of_scan_line:
  "map_of (l_options (scan_line st l)) L =
     (case option_match (strip l) of
        Some (k, t) \<Rightarrow> if k = L then Some t else map_of (l_options st) L
      | None \<Rightarrow> map_of (l_options st) L)"
  by (auto simp: l_options_scan_line update_conv' split: option.splits)

lemma scan_lines_no_match:
  "(\<forall>l\<in>set ls. \<forall>t. option_match (strip l) \<noteq> Some (L, t)) \<Longrightarrow>
   map_of (l_options (foldl scan_line st ls)) L = map_of (l_options st) L"
proof (induction ls arbitrary: st)
  case Nil
  then show ?case by simp
next
  case (Cons l ls)
  from Cons.prems have "map_of (l_options (scan_line st l)) L = map_of (l_options st) L"
    by (auto simp: map_of_scan_line split: option.splits)
  with Cons.IH[of "scan_line st l"] Cons.prems show ?case by simp
qed

subsection \<open>The explanation\<close>

lemma startswith_Nil: "p \<noteq> [] \<Longrightarrow> \<not> startswith [] p"
  by (auto simp: startswith_def)

lemma l_explanation_start:
  "startswith (strip l) ''Explanation:'' \<Longrightarrow>
   l_explanation (scan_line st l) = Some (strip (drop 12 (strip l)))"
  by (auto simp: scan_line_def Let_def startswith_def split: option.splits)

lemma l_explanation_continue:
  "is_continuation l \<Longrightarrow> l_explanation st = Some e \<Longrightarrow> e \<noteq> [] \<Longrightarrow>
   l_explanation (scan_line st l) = Some (e @ '' '' @ strip l)"
  by (simp add: scan_line_def Let_def is_continuation_def)

lemma l_explanation_keep:
  "\<not> is_continuation l \<Longrightarrow> \<not> startswith (strip l) ''Explanation:'' \<Longrightarrow>
   l_explanation (scan_line st l) = l_explanation st"
  by (auto simp: scan_line_def Let_def is_continuation_def split: option.splits)

lemma scan_lines_explanation:
  "l_explanation st = Some e \<Longrightarrow> e \<noteq> [] \<Longrightarrow>
   (\<forall>l\<in>set ls. \<not> startswith (strip l) ''Explanation:'') \<Longrightarrow>
   l_explanation (foldl scan_line st ls) =
     Some (e @ concat (map (\<lambda>l. '' '' @ strip l) (filter is_continuation ls)))"
proof (induction ls arbitrary: st e)
  case Nil
  then show ?case by simp
next
  case (Cons l ls)
  show ?case
  proof (cases "is_continuation l")
    case True
    with Cons.prems have "l_explanation (scan_line st l) = Some (e @ '' '' @ strip l)"
      by (simp add: l_explanation_continue)
    from Cons.IH[OF this] Cons.prems(3) True show ?thesis by simp
  next
    case False
    with Cons.prems have "l_explanation (scan_line st l) = Some e"
      by (simp add: l_explanation_keep)
    from Cons.IH[OF this] Cons.prems(2,3) False show ?thesis by simp
  qed
qed

subsection \<open>The letters of a segment\<close>

lemma keys_scan_line:
  "fst ` set (l_options (scan_line st l)) =
   fst ` set (l_options st) \<union> fst ` set (List.map_filter (\<lambda>l. option_match (strip l)) [l])"
proof (cases "option_match (strip l)")
  case None
  then show ?thesis by (simp add: l_options_scan_line)
next
  case (Some p)
  then show ?thesis by (cases p) (simp add: l_options_scan_line dom_update)
qed

lemma scan_lines_letters:
  "fst ` set (l_options (foldl scan_line st ls)) =
   fst ` set (l_options st) \<union> fst ` set (List.map_filter (\<lambda>l. option_match (strip l)) ls)"
proof (induction ls arbitrary: st)
  case Nil
  then show ?case by simp
next
  case (Cons l ls)
  have "fst ` set (l_options (foldl scan_line st (l # ls))) =
        fst ` set (l_options (scan_line st l))
        \<union> fst ` set (List.map_filter (\<lambda>l. option_match (strip l)) ls)"
    by (simp add: Cons.IH)
  also have "\<dots> = fst ` set (l_options st)
        \<union> (fst ` set (List.map_filter (\<lambda>l. option_match (strip l)) [l])
        \<union> fst ` set (List.map_filter (\<lambda>l. option_match (strip l)) ls))"
    by (simp only: keys_scan_line Un_assoc)
  also have "fst ` set (List.map_filter (\<lambda>l. option_match (strip l)) [l])
        \<union> fst ` set (List.map_filter (\<lambda>l. option_match (strip l)) ls)
      = fst ` set (List.map_filter (\<lambda>l. option_match (strip l)) (l # ls))"
    by (cases "option_match (strip l)") auto
  finally show ?case .
qed

lemma option_letters_subset: "option_letters seg \<subseteq> set ''ABCD''"
proof
  fix k assume "k \<in> option_letters seg"
  then obtain l t where "option_match (strip l) = Some (k, t)"
    by (auto simp: option_letters_def List.map_filter_def)
  then show "k \<in> set ''ABCD''" using option_match_Some by blast
qed

lemma option_letters_card: "card (option_letters seg) \<le> 4"
proof -
  have "card (option_letters seg) \<le> card (set ''ABCD'')"
    by (rule card_mono) (simp, rule option_letters_subset)
  then show ?thesis by simp
qed

lemma parse_segment_letters:
  assumes "parse_segment seg = Some q"
  shows "fst ` set (options q) = option_letters seg" and "card (option_letters seg) = 4"
proof -
  from assms obtain first rest where r:
    "str_split CHR ''\<newline>'' seg = first # rest"
    "options q = l_options (foldl scan_line scan_init rest)"
    "length (options q) = 4"
    by (rule parse_segment_Some)
  show k: "fst ` set (options q) = option_letters seg"
    by (simp add: r(1,2) scan_lines_letters option_letters_def scan_init_def)
  have "distinct (map fst (options q))"
    unfolding r(2) by (rule scan_lines_distinct) (simp add: scan_init_def)
  then have "card (set (map fst (options q))) = length (map fst (options q))"
    by (rule distinct_card)
  with k r(3) show "card (option_letters seg) = 4" by simp
qed

lemma str_split_nonempty: "str_split sep s \<noteq> []"
  by (induction s) (auto split: list.splits)

lemma str_split_no_sep: "sep \<notin> set line \<Longrightarrow> str_split sep line = [line]"
  by (induction line) auto

lemma str_split_append_line:
  "sep \<notin> set line \<Longrightarrow> str_split sep (s @ sep # line) = str_split sep s @ [line]"
proof (induction s)
  case Nil
  then show ?case by (simp add: str_split_no_sep)
next
  case (Cons c s)
  obtain l ls where "str_split sep s = l # ls"
    using str_split_nonempty[of sep s] by (cases "str_split sep s") auto
  with Cons show ?case by simp
qed

lemma option_match_second:
  "option_match (l # r) = Some p \<Longrightarrow>
   \<exists>c cs. r = c # cs \<and> (c = CHR ''.'' \<or> c = CHR '':'' \<or> isspace c)"
  unfolding option_match_def ws_plus_def
  by (cases r) (auto split: if_splits option.splits)

lemma option_match_not_answer:
  assumes "option_match s = Some p"
  shows "answer_match s = None"
proof (cases s)
  case Nil
  with assms show ?thesis by (simp add: option_match_Nil)
next
  case (Cons l r)
  with assms obtain c cs where c: "r = c # cs" "c = CHR ''.'' \<or> c = CHR '':'' \<or> isspace c"
    using option_match_second by blast
  then have "c \<noteq> CHR ''n''" by (auto simp: isspace_def)
  with Cons c(1) have "\<not> startswith s ''Answer''" by (simp add: startswith_def)
  then show ?thesis by (simp add: answer_match_def)
qed

lemma option_match_not_explanation:
  "option_match s = Some p \<Longrightarrow> \<not> startswith s ''Explanation:''"
  unfolding option_match_def startswith_def
  by (auto split: list.splits if_splits)

lemma scan_line_option:
  assumes "option_match (strip l) = Some (L, t)"
  shows "scan_line st l = st\<lparr>l_options := AList.update L t (l_options st)\<rparr>"
proof -
  from assms have "strip l \<noteq> []" by (auto simp: option_match_Nil)
  moreover from assms have "answer_match (strip l) = None" by (rule option_match_not_answer)
  moreover from assms have "\<not> startswith (strip l) ''Explanation:''"
    by (rule option_match_not_explanation)
  ultimately show ?thesis using assms
    by (simp add: scan_line_def Let_def split: option.splits)
qed

lemma length_update_key:
  "k \<in> fst ` set al \<Longrightarrow> length (AList.update k v al) = length al"
  by (induction al) auto

lemma parse_segment_append_option:
  assumes "parse_segment seg = Some q"
    and "option_match (strip line) = Some (L, t)"
    and "CHR ''\<newline>'' \<notin> set line"
  shows "parse_segment (seg @ CHR ''\<newline>'' # line)
         = Some (q\<lparr>options := AList.update L t (options q)\<rparr>)"
proof -
  from assms(1) obtain first rest where r:
    "str_split CHR ''\<newline>'' seg = first # rest"
    "question q = strip first"
    "options q = l_options (foldl scan_line scan_init rest)"
    "l_answer (foldl scan_line scan_init rest) = Some (answer q)"
    "l_explanation (foldl scan_line scan_init rest) = Some (explanation q)"
    "question q \<noteq> []" "explanation q \<noteq> []" "length (options q) = 4"
    by (rule parse_segment_Some)
  let ?st = "foldl scan_line scan_init rest"
  have sp: "str_split CHR ''\<newline>'' (seg @ CHR ''\<newline>'' # line) = first # (rest @ [line])"
    using assms(3) r(1) by (simp add: str_split_append_line)
  have st: "scan_line ?st line = ?st\<lparr>l_options := AList.update L t (l_options ?st)\<rparr>"
    using assms(2) by (rule scan_line_option)
  from assms(2) option_match_Some have "L \<in> set ''ABCD''" by blast
  moreover have ce: "card (option_letters seg) = card (set ''ABCD'')"
    by (simp add: parse_segment_letters(2)[OF assms(1)])
  have "option_letters seg = set ''ABCD''"
    by (rule card_subset_eq[OF finite_set option_letters_subset ce])
  then have "fst ` set (options q) = set ''ABCD''"
    by (simp only: parse_segment_letters(1)[OF assms(1)])
  ultimately have "L \<in> fst ` set (options q)" by simp
  then have len: "length (AList.update L t (options q)) = 4"
    using r(8) by (simp add: length_update_key)
  then have ne: "AList.update L t (options q) \<noteq> []" by auto
  have "parse_segment (seg @ CHR ''\<newline>'' # line)
        = Some \<lparr>question = question q, options = AList.update L t (options q),
                 answer = answer q, explanation = explanation q\<rparr>"
    using r len ne by (simp add: parse_segment_def sp st Let_def)
  also have "\<dots> = Some (q\<lparr>options := AList.update L t (options q)\<rparr>)"
    by (cases q) simp
  finally show ?thesis .
qed

subsection \<open>Splitting at the markers\<close>

lemma startswith_append: "startswith a p \<Longrightarrow> startswith (a @ b) p"
proof -
  assume a: "startswith a p"
  then have "length (take (length p) a) = length p" by (simp only: startswith_def)
  then have "length p \<le> length a" by simp
  with a show ?thesis by (simp add: startswith_def)
qed

lemma startswith_length: "startswith a p \<Longrightarrow> length p \<le> length a"
proof -
  assume a: "startswith a p"
  then have "length (take (length p) a) = length p" by (simp only: startswith_def)
  then show "length p \<le> length a" by simp
qed

lemma digits_colon_append: "digits_colon a = Some n \<Longrightarrow> digits_colon (a @ b) = Some n"
proof -
  assume a: "digits_colon a = Some n"
  then obtain c r where d: "dropWhile isdigit a = c # r" "c = CHR '':''"
    "takeWhile isdigit a \<noteq> []" "n = length (takeWhile isdigit a) + 1"
    by (auto simp: digits_colon_def Let_def split: list.splits if_splits)
  from d(1) have "c \<in> set a" by (metis list.set_intros(1) set_dropWhileD)
  moreover from d(1) have "\<not> isdigit c" by (metis hd_dropWhile list.sel(1) list.distinct(1))
  ultimately have "takeWhile isdigit (a @ b) = takeWhile isdigit a"
    and "dropWhile isdigit (a @ b) = dropWhile isdigit a @ b"
    by (auto simp: takeWhile_append1 dropWhile_append1)
  with d show ?thesis by (simp add: digits_colon_def Let_def)
qed

lemma question_pattern_append:
  assumes "question_pattern a = Some n"
  shows "question_pattern (a @ b) = Some n"
proof (cases "if startswith a ''Q'' then digits_colon (drop 1 a) else None")
  case (Some m)
  then have q: "startswith a ''Q''" and m: "digits_colon (drop 1 a) = Some m"
    by (auto split: if_splits)
  from q have l: "1 \<le> length a" using startswith_length by fastforce
  from assms Some have n: "n = 1 + m" by (simp add: question_pattern_def)
  from l have "drop 1 (a @ b) = drop 1 a @ b" by simp
  with digits_colon_append[OF m, of b] startswith_append[OF q, of b] n
  show ?thesis by (simp add: question_pattern_def)
next
  case None
  with assms obtain m where q: "startswith a ''Question ''"
    and m: "digits_colon (drop 9 a) = Some m" and n: "n = 9 + m"
    by (auto simp: question_pattern_def split: if_splits option.splits)
  from q have l: "9 \<le> length a" using startswith_length by fastforce
  have nq: "(if startswith (a @ b) ''Q'' then digits_colon (drop 1 (a @ b)) else None) = None"
  proof (cases "startswith (a @ b) ''Q''")
    case True
    with l have sq: "startswith a ''Q''" by (cases a) (auto simp: startswith_def)
    with None have dn: "digits_colon (drop 1 a) = None" by simp
    from q have "take 9 a = ''Question ''" by (simp add: startswith_def numeral_eq_Suc)
    then obtain r where "a = ''Question '' @ r" by (metis append_take_drop_id)
    then have "digits_colon (drop 1 (a @ b)) = None"
      by (simp add: digits_colon_def isdigit_def)
    then show ?thesis by simp
  next
    case False
    then show ?thesis by simp
  qed
  from l have "drop 9 (a @ b) = drop 9 a @ b" by simp
  with digits_colon_append[OF m, of b] startswith_append[OF q, of b] n nq
  show ?thesis by (simp add: question_pattern_def)
qed

lemma re_search_Some:
  "re_search s = Some (i, n) \<Longrightarrow> question_pattern (drop i s) = Some n"
proof (induction s arbitrary: i)
  case Nil
  then show ?case by simp
next
  case (Cons c cs)
  show ?case
  proof (cases "question_pattern (c # cs)")
    case (Some m)
    with Cons.prems show ?thesis by simp
  next
    case None
    with Cons.prems obtain j where "re_search cs = Some (j, n)" "i = Suc j"
      by (auto split: option.splits)
    with Cons.IH[of j] show ?thesis by simp
  qed
qed

lemma re_search_take:
  "re_search s = Some (i, n) \<Longrightarrow> re_search (take i s) = None"
proof (induction s arbitrary: i)
  case Nil
  then show ?case by simp
next
  case (Cons c cs)
  show ?case
  proof (cases "question_pattern (c # cs)")
    case (Some m)
    with Cons.prems show ?thesis by simp
  next
    case None
    with Cons.prems obtain j where j: "re_search cs = Some (j, n)" "i = Suc j"
      by (auto split: option.splits)
    have "question_pattern (c # take j cs) = None"
    proof (cases "question_pattern (c # take j cs)")
      case None
      then show ?thesis .
    next
      case (Some m)
      from question_pattern_append[OF Some, of "drop j cs"] None show ?thesis by simp
    qed
    with Cons.IH[OF j(1)] j(2) show ?thesis by simp
  qed
qed

lemma re_split_pieces: "p \<in> set (re_split s) \<Longrightarrow> re_search p = None"
proof (induction s rule: re_split.induct)
  case (1 s)
  show ?case
  proof (cases "re_search s")
    case None
    with "1.prems" show ?thesis by (simp add: re_split.simps[of s])
  next
    case (Some x)
    obtain i n where x: "x = (i, n)" by (cases x)
    from "1.prems" Some x have "p = take i s \<or> p \<in> set (re_split (drop (i + n) s))"
      by (simp add: re_split.simps[of s])
    then show ?thesis
    proof
      assume "p = take i s"
      with Some x re_search_take show ?thesis by simp
    next
      assume "p \<in> set (re_split (drop (i + n) s))"
      with "1.IH"[OF Some x[symmetric]] show ?thesis by simp
    qed
  qed
qed

lemma digits_colon_take: "digits_colon s = Some n \<Longrightarrow> digits_colon (take n s) = Some n"
proof -
  assume a: "digits_colon s = Some n"
  let ?ds = "takeWhile isdigit s"
  from a obtain r where d: "dropWhile isdigit s = CHR '':'' # r"
    "?ds \<noteq> []" "n = length ?ds + 1"
    by (auto simp: digits_colon_def Let_def split: list.splits if_splits)
  have "s = ?ds @ CHR '':'' # r" using d(1) by (metis takeWhile_dropWhile_id)
  then have "take n s = take n (?ds @ CHR '':'' # r)" by simp
  then have t: "take n s = ?ds @ [CHR '':'']" using d(3) by simp
  have all: "\<And>x. x \<in> set ?ds \<Longrightarrow> isdigit x" by (rule set_takeWhileD[THEN conjunct2])
  have nd: "\<not> isdigit CHR '':''" by (simp add: isdigit_def)
  from all nd have "takeWhile isdigit (?ds @ [CHR '':'']) = ?ds"
    and "dropWhile isdigit (?ds @ [CHR '':'']) = [CHR '':'']"
    by (simp_all add: takeWhile_append2 dropWhile_append2)
  with d(2,3) show ?thesis unfolding t by (simp add: digits_colon_def Let_def)
qed

lemma startswith_take: "startswith s p \<Longrightarrow> length p \<le> n \<Longrightarrow> startswith (take n s) p"
  by (simp add: startswith_def min_def)

lemma question_pattern_take:
  assumes "question_pattern s = Some n"
  shows "question_pattern (take n s) = Some n"
proof (cases "if startswith s ''Q'' then digits_colon (drop 1 s) else None")
  case (Some m)
  then have q: "startswith s ''Q''" and m: "digits_colon (drop 1 s) = Some m"
    by (auto split: if_splits)
  from assms Some have n: "n = 1 + m" by (simp add: question_pattern_def)
  have "drop 1 (take n s) = take m (drop 1 s)" by (simp add: n drop_take)
  with digits_colon_take[OF m] startswith_take[OF q, of n] n
  show ?thesis by (simp add: question_pattern_def)
next
  case None
  with assms obtain m where q: "startswith s ''Question ''"
    and m: "digits_colon (drop 9 s) = Some m" and n: "n = 9 + m"
    by (auto simp: question_pattern_def split: if_splits option.splits)
  from q have "take 9 s = ''Question ''" by (simp add: startswith_def numeral_eq_Suc)
  then have "take n s = ''Question '' @ take m (drop 9 s)" by (simp only: n take_add)
  then have nq: "digits_colon (drop 1 (take n s)) = None"
    by (simp add: digits_colon_def isdigit_def)
  have "drop 9 (take n s) = take m (drop 9 s)" by (simp add: n drop_take)
  with digits_colon_take[OF m] startswith_take[OF q, of n] n nq
  show ?thesis by (simp add: question_pattern_def)
qed

lemma re_split_rejoin:
  "\<exists>ms. length (re_split s) = Suc (length ms)
     \<and> (\<forall>m\<in>set ms. question_pattern m = Some (length m))
     \<and> rejoin (re_split s) ms = s"
proof (induction s rule: re_split.induct)
  case (1 s)
  show ?case
  proof (cases "re_search s")
    case None
    then have "re_split s = [s]" by (simp add: re_split.simps[of s])
    then have "length (re_split s) = Suc (length ([]::string list))
       \<and> (\<forall>m\<in>set ([]::string list). question_pattern m = Some (length m))
       \<and> rejoin (re_split s) [] = s" by simp
    then show ?thesis by blast
  next
    case (Some x)
    obtain i n where x: "x = (i, n)" by (cases x)
    let ?rest = "drop (i + n) s"
    let ?m = "take n (drop i s)"
    from Some x have sp: "re_split s = take i s # re_split ?rest"
      by (simp add: re_split.simps[of s])
    from "1.IH"[OF Some x[symmetric]] obtain ms where ms:
      "length (re_split ?rest) = Suc (length ms)"
      "\<forall>m\<in>set ms. question_pattern m = Some (length m)"
      "rejoin (re_split ?rest) ms = ?rest" by blast
    from Some x have b: "0 < n \<and> i + n \<le> length s" using re_search_bounds by simp
    from Some x have "question_pattern (drop i s) = Some n" using re_search_Some by simp
    then have "question_pattern ?m = Some n" by (rule question_pattern_take)
    moreover from b have "length ?m = n" by auto
    ultimately have qm: "question_pattern ?m = Some (length ?m)" by simp
    have "take i s @ ?m @ ?rest = s"
      by (metis append_take_drop_id drop_drop add.commute)
    with ms(3) have "rejoin (re_split s) (?m # ms) = s" by (simp add: sp)
    moreover have "length (re_split s) = Suc (length (?m # ms))" by (simp add: sp ms(1))
    moreover have "\<forall>m\<in>set (?m # ms). question_pattern m = Some (length m)"
      using qm ms(2) by simp
    ultimately show ?thesis by blast
  qed
qed

lemma parse_questions_first:
  assumes "re_search text = Some (i, n)"
  shows "parse_questions text =
     (if strip (take i text) = [] then []
      else (case parse_segment (strip (take i text)) of None \<Rightarrow> [] | Some q \<Rightarrow> [q]))
     @ parse_questions (drop (i + n) text)"
proof -
  from assms have "re_split text = take i text # re_split (drop (i + n) text)"
    by (simp add: re_split.simps[of "text"])
  then show ?thesis
    by (simp add: parse_questions_def Let_def split: option.splits)
qed

lemma parse_questions_no_marker:
  assumes "re_search text = None"
  shows "parse_questions text =
     (if strip text = [] then []
      else (case parse_segment (strip text) of None \<Rightarrow> [] | Some q \<Rightarrow> [q]))"
proof -
  from assms have "re_split text = [text]" by (simp add: re_split.simps[of "text"])
  then show ?thesis
    by (simp add: parse_questions_def Let_def split: option.splits)
qed

subsection \<open>The session and the identity file\<close>

lemma run_quiz_completed:
  assumes "quiz_generator self = Some kb"
    and "create_quiz kb tp diff n = Inr questions"
    and "ask_questions questions inp 0 = Inr (correct_answers, inp')"
    and "questions \<noteq> []"
    and "db_client self = Some db"
    and "\<not> failing db"
  shows "run_quiz self tp diff n inp now =
    (Inr (real correct_answers / real (length questions) * 100),
     self\<lparr>db_client := Some (db\<lparr>table_items :=
       filter (\<lambda>x. (user_id x, timestamp x) \<noteq> (self_user_id self, now)) (table_items db)
       @ [\<lparr>user_id = self_user_id self, timestamp = now, topic = tp,
            score = real correct_answers / real (length questions) * 100,
            num_questions = n, difficulty = diff\<rparr>]\<rparr>)\<rparr>)"
  using assms by (simp add: run_quiz_def save_quiz_result_def put_item_def Let_def)

lemma run_quiz_score_of_five:
  assumes "quiz_generator self = Some kb"
    and "create_quiz kb tp diff n = Inr questions"
    and "ask_questions questions inp 0 = Inr (correct_answers, inp')"
    and "length questions = 5"
    and "db_client self = Some db"
    and "\<not> failing db"
  shows "fst (run_quiz self tp diff n inp now) = Inr (20 * real correct_answers)"
    and "correct_answers = 3 \<Longrightarrow> fst (run_quiz self tp diff n inp now) = Inr 60"
    and "correct_answers = 0 \<Longrightarrow> fst (run_quiz self tp diff n inp now) = Inr 0"
    and "correct_answers = 5 \<Longrightarrow> fst (run_quiz self tp diff n inp now) = Inr 100"
proof -
  from assms(4) have ne: "questions \<noteq> []" by auto
  from run_quiz_completed[OF assms(1-3) ne assms(5,6), of now] assms(4)
  show g: "fst (run_quiz self tp diff n inp now) = Inr (20 * real correct_answers)"
    by simp
  from g show "correct_answers = 3 \<Longrightarrow> fst (run_quiz self tp diff n inp now) = Inr 60"
    and "correct_answers = 0 \<Longrightarrow> fst (run_quiz self tp diff n inp now) = Inr 0"
    and "correct_answers = 5 \<Longrightarrow> fst (run_quiz self tp diff n inp now) = Inr 100"
    by simp_all
qed

lemma get_user_id_stored:
  assumes "config_file w = Some (Parsed (JObject entries))"
    and "map_of entries ''user_id'' = Some v"
  shows "get_or_create_user_id uuid4 w = (Inr v, w\<lparr>uuid_count := uuid_count w + 1\<rparr>)"
  using assms by (simp add: get_or_create_user_id_def Let_def)

lemma get_user_id_created:
  assumes "config_file w = None"
  shows "get_or_create_user_id uuid4 w =
    (Inr (JString (uuid4 (uuid_count w))),
     w\<lparr>config_file := Some (Parsed (JObject [(''user_id'', JString (uuid4 (uuid_count w)))])),
       uuid_count := uuid_count w + 1\<rparr>)"
  using assms by (simp add: get_or_create_user_id_def Let_def)

lemma after_calls_stored:
  "config_file w = Some (Parsed (JObject entries)) \<Longrightarrow>
   map_of entries ''user_id'' = Some v \<Longrightarrow>
   config_file (after_calls uuid4 k w) = Some (Parsed (JObject entries))"
proof (induction k arbitrary: w)
  case 0
  then show ?case by simp
next
  case (Suc k)
  from Suc.prems have "config_file (snd (get_or_create_user_id uuid4 w))
      = Some (Parsed (JObject entries))"
    by (simp add: get_user_id_stored)
  from Suc.IH[OF this Suc.prems(2)] show ?case by simp
qed

section \<open>Properties of the parser\<close>

text \<open>
  C2. The end-to-end example of the specification: the text
  \<open>Q1: What is X?\<close>, the four option lines \<open>A. Opt1\<close> to \<open>D. Opt4\<close>, \<open>Answer: B\<close> and
  \<open>Explanation: Because reasons.\<close>, one per line, parses to exactly one question with
  that stem, those four options in that order, the answer \<open>B\<close> and that explanation.
\<close>

theorem parse_questions_end_to_end:
  "parse_questions ''Q1: What is X?\<newline>A. Opt1\<newline>B. Opt2\<newline>C. Opt3\<newline>D. Opt4\<newline>Answer: B\<newline>Explanation: Because reasons.''
   = [\<lparr>question = ''What is X?'',
        options = [(CHR ''A'', ''Opt1''), (CHR ''B'', ''Opt2''), (CHR ''C'', ''Opt3''),
                   (CHR ''D'', ''Opt4'')],
        answer = CHR ''B'',
        explanation = ''Because reasons.''\<rparr>]"
  by code_simp

text \<open>
  C1. Every question the parser emits, whatever the input text, has a non-empty stem,
  exactly four options with distinct keys that are the letters A, B, C and D, an answer
  that is one of those letters and a key of the options, and a non-empty explanation.
\<close>

theorem parse_questions_invariant:
  assumes "q \<in> set (parse_questions text)"
  shows "question q \<noteq> [] \<and> length (options q) = 4 \<and> distinct (map fst (options q))
    \<and> fst ` set (options q) = {CHR ''A'', CHR ''B'', CHR ''C'', CHR ''D''}
    \<and> answer q \<in> {CHR ''A'', CHR ''B'', CHR ''C'', CHR ''D''}
    \<and> answer q \<in> fst ` set (options q)
    \<and> explanation q \<noteq> []"
proof -
  from assms obtain seg where "parse_segment seg = Some q"
    using parse_questions_mem by blast
  then obtain first rest where r:
    "options q = l_options (foldl scan_line scan_init rest)"
    "l_answer (foldl scan_line scan_init rest) = Some (answer q)"
    "question q \<noteq> []" "explanation q \<noteq> []" "length (options q) = 4"
    by (rule parse_segment_Some)
  have d: "distinct (map fst (options q))"
    unfolding r(1) by (rule scan_lines_distinct) (simp add: scan_init_def)
  have "fst ` set (options q) \<subseteq> set ''ABCD''"
    unfolding r(1) by (rule scan_lines_keys) (simp add: scan_init_def)
  with d r(5) have k: "fst ` set (options q) = set ''ABCD''" by (rule four_keys)
  from scan_lines_answer[OF r(2)] have a: "answer q \<in> set ''ABCD''"
    by (simp add: scan_init_def)
  from k a r d show ?thesis by auto
qed

theorem parse_questions_invariant_witness:
  "(let q = \<lparr>question = ''What is X?'',
        options = [(CHR ''A'', ''Opt1''), (CHR ''B'', ''Opt2''), (CHR ''C'', ''Opt3''),
                   (CHR ''D'', ''Opt4'')],
        answer = CHR ''B'',
        explanation = ''Because reasons.''\<rparr> in 
    q \<in> set (parse_questions ''Q1: What is X?\<newline>A. Opt1\<newline>B. Opt2\<newline>C. Opt3\<newline>D. Opt4\<newline>Answer: B\<newline>Explanation: Because reasons.'')
   \<and> question q \<noteq> [] \<and> length (options q) = 4 \<and> distinct (map fst (options q))
    \<and> fst ` set (options q) = {CHR ''A'', CHR ''B'', CHR ''C'', CHR ''D''}
    \<and> answer q \<in> {CHR ''A'', CHR ''B'', CHR ''C'', CHR ''D''}
    \<and> answer q \<in> fst ` set (options q)
    \<and> explanation q \<noteq> [])"
proof -
  have m: "\<lparr>question = ''What is X?'',
        options = [(CHR ''A'', ''Opt1''), (CHR ''B'', ''Opt2''), (CHR ''C'', ''Opt3''),
                   (CHR ''D'', ''Opt4'')],
        answer = CHR ''B'',
        explanation = ''Because reasons.''\<rparr>
     \<in> set (parse_questions ''Q1: What is X?\<newline>A. Opt1\<newline>B. Opt2\<newline>C. Opt3\<newline>D. Opt4\<newline>Answer: B\<newline>Explanation: Because reasons.'')"
    by code_simp
  show ?thesis unfolding Let_def using parse_questions_invariant[OF m] m by simp
qed

text \<open>
  C5. Last write wins. When a line of an emitted segment is an option line for a letter
  and no later line of the segment is an option line for that letter, the emitted
  options bind the letter to that line's text, whatever earlier lines said. The instance
  below is a segment with the lines \<open>B. old\<close> and \<open>B. new\<close>: the question emitted
  holds \<open>new\<close> under B.
\<close>

theorem duplicate_option_last_wins:
  assumes "parse_segment seg = Some q"
    and "str_split CHR ''\<newline>'' seg = first # pre @ l # post"
    and "option_match (strip l) = Some (L, t)"
    and "\<forall>l'\<in>set post. \<forall>t'. option_match (strip l') \<noteq> Some (L, t')"
  shows "map_of (options q) L = Some t"
proof -
  from assms(1) obtain first' rest where r:
    "str_split CHR ''\<newline>'' seg = first' # rest"
    "options q = l_options (foldl scan_line scan_init rest)"
    by (rule parse_segment_Some)
  with assms(2) have rest: "rest = pre @ l # post" by simp
  let ?st = "foldl scan_line scan_init pre"
  have "map_of (options q) L = map_of (l_options (foldl scan_line (scan_line ?st l) post)) L"
    by (simp add: r(2) rest)
  also have "\<dots> = map_of (l_options (scan_line ?st l)) L"
    using assms(4) by (rule scan_lines_no_match)
  also have "\<dots> = Some t"
    by (simp add: map_of_scan_line assms(3))
  finally show ?thesis .
qed

theorem duplicate_option_last_wins_witness:
  "parse_questions ''Q1: S?\<newline>A. a\<newline>B. old\<newline>B. new\<newline>C. c\<newline>D. d\<newline>Answer: B\<newline>Explanation: x''
     = [\<lparr>question = ''S?'',
          options = [(CHR ''A'', ''a''), (CHR ''B'', ''new''), (CHR ''C'', ''c''), (CHR ''D'', ''d'')],
          answer = CHR ''B'', explanation = ''x''\<rparr>]
   \<and> parse_segment ''S?\<newline>A. a\<newline>B. old\<newline>B. new\<newline>C. c\<newline>D. d\<newline>Answer: B\<newline>Explanation: x''
     = Some \<lparr>question = ''S?'',
          options = [(CHR ''A'', ''a''), (CHR ''B'', ''new''), (CHR ''C'', ''c''), (CHR ''D'', ''d'')],
          answer = CHR ''B'', explanation = ''x''\<rparr>
   \<and> option_match (strip ''B. old'') = Some (CHR ''B'', ''old'')
   \<and> option_match (strip ''B. new'') = Some (CHR ''B'', ''new'')
   \<and> map_of (options \<lparr>question = ''S?'',
          options = [(CHR ''A'', ''a''), (CHR ''B'', ''new''), (CHR ''C'', ''c''), (CHR ''D'', ''d'')],
          answer = CHR ''B'', explanation = ''x''\<rparr>) CHR ''B'' = Some ''new''"
proof -
  have pq: "parse_questions ''Q1: S?\<newline>A. a\<newline>B. old\<newline>B. new\<newline>C. c\<newline>D. d\<newline>Answer: B\<newline>Explanation: x''
     = [\<lparr>question = ''S?'',
          options = [(CHR ''A'', ''a''), (CHR ''B'', ''new''), (CHR ''C'', ''c''), (CHR ''D'', ''d'')],
          answer = CHR ''B'', explanation = ''x''\<rparr>]"
    by code_simp
  have ps: "parse_segment ''S?\<newline>A. a\<newline>B. old\<newline>B. new\<newline>C. c\<newline>D. d\<newline>Answer: B\<newline>Explanation: x''
     = Some \<lparr>question = ''S?'',
          options = [(CHR ''A'', ''a''), (CHR ''B'', ''new''), (CHR ''C'', ''c''), (CHR ''D'', ''d'')],
          answer = CHR ''B'', explanation = ''x''\<rparr>"
    by code_simp
  have sp: "str_split CHR ''\<newline>'' ''S?\<newline>A. a\<newline>B. old\<newline>B. new\<newline>C. c\<newline>D. d\<newline>Answer: B\<newline>Explanation: x''
     = ''S?'' # [''A. a'', ''B. old''] @ ''B. new'' # [''C. c'', ''D. d'', ''Answer: B'', ''Explanation: x'']"
    by code_simp
  have old: "option_match (strip ''B. old'') = Some (CHR ''B'', ''old'')" by code_simp
  have new: "option_match (strip ''B. new'') = Some (CHR ''B'', ''new'')" by code_simp
  have c: "option_match (strip ''C. c'') = Some (CHR ''C'', ''c'')" by code_simp
  have d: "option_match (strip ''D. d'') = Some (CHR ''D'', ''d'')" by code_simp
  have a: "option_match (strip ''Answer: B'') = None" by code_simp
  have e: "option_match (strip ''Explanation: x'') = None" by code_simp
  have post: "\<forall>l'\<in>set [''C. c'', ''D. d'', ''Answer: B'', ''Explanation: x''].
      \<forall>t'. option_match (strip l') \<noteq> Some (CHR ''B'', t')"
    by (simp add: c d a e)
  from duplicate_option_last_wins[OF ps sp new post] pq ps old new show ?thesis by simp
qed

text \<open>
  C6, as amended. In an emitted segment, take the last line that begins with
  \<open>Explanation:\<close> and let its text after the 12-character prefix, trimmed, be non-empty.
  The emitted explanation is that text followed, in order and each joined by one space,
  by every later line that after trimming is non-empty, is no option line, no answer
  line, and does not begin with the letter \<open>Q\<close>. (The claim as stated excludes only new
  question markers; the loop leaves out every line that begins with \<open>Q\<close>, as the
  counterexample shows.)
\<close>

theorem explanation_continuation:
  assumes "parse_segment seg = Some q"
    and "str_split CHR ''\<newline>'' seg = first # pre @ l0 # post"
    and "startswith (strip l0) ''Explanation:''"
    and "strip (drop 12 (strip l0)) \<noteq> []"
    and "\<forall>l\<in>set post. \<not> startswith (strip l) ''Explanation:''"
  shows "explanation q =
    strip (drop 12 (strip l0)) @ concat (map (\<lambda>l. '' '' @ strip l) (filter is_continuation post))"
proof -
  from assms(1) obtain first' rest where r:
    "str_split CHR ''\<newline>'' seg = first' # rest"
    "l_explanation (foldl scan_line scan_init rest) = Some (explanation q)"
    by (rule parse_segment_Some)
  with assms(2) have rest: "rest = pre @ l0 # post" by simp
  let ?st = "scan_line (foldl scan_line scan_init pre) l0"
  have "l_explanation ?st = Some (strip (drop 12 (strip l0)))"
    using assms(3) by (rule l_explanation_start)
  from scan_lines_explanation[OF this assms(4,5)] r(2) rest show ?thesis by simp
qed


theorem explanation_continuation_witness:
  "parse_segment ''S?\<newline>A. a\<newline>B. b\<newline>C. c\<newline>Explanation: First.\<newline>second line\<newline>D. d\<newline>Quite so.\<newline>Answer: A\<newline>  third''
     = Some \<lparr>question = ''S?'',
          options = [(CHR ''A'', ''a''), (CHR ''B'', ''b''), (CHR ''C'', ''c''), (CHR ''D'', ''d'')],
          answer = CHR ''A'', explanation = ''First. second line third''\<rparr>
   \<and> filter is_continuation [''second line'', ''D. d'', ''Quite so.'', ''Answer: A'', ''  third'']
     = [''second line'', ''  third'']
   \<and> ''First. second line third''
     = strip (drop 12 (strip ''Explanation: First.''))
       @ concat (map (\<lambda>l. '' '' @ strip l)
           (filter is_continuation [''second line'', ''D. d'', ''Quite so.'', ''Answer: A'', ''  third'']))"
proof -
  have ps: "parse_segment ''S?\<newline>A. a\<newline>B. b\<newline>C. c\<newline>Explanation: First.\<newline>second line\<newline>D. d\<newline>Quite so.\<newline>Answer: A\<newline>  third''
     = Some \<lparr>question = ''S?'',
          options = [(CHR ''A'', ''a''), (CHR ''B'', ''b''), (CHR ''C'', ''c''), (CHR ''D'', ''d'')],
          answer = CHR ''A'', explanation = ''First. second line third''\<rparr>"
    by code_simp
  have sp: "str_split CHR ''\<newline>'' ''S?\<newline>A. a\<newline>B. b\<newline>C. c\<newline>Explanation: First.\<newline>second line\<newline>D. d\<newline>Quite so.\<newline>Answer: A\<newline>  third''
     = ''S?'' # [''A. a'', ''B. b'', ''C. c''] @ ''Explanation: First.''
         # [''second line'', ''D. d'', ''Quite so.'', ''Answer: A'', ''  third'']"
    by code_simp
  have st: "startswith (strip ''Explanation: First.'') ''Explanation:''" by code_simp
  have ne: "strip (drop 12 (strip ''Explanation: First.'')) \<noteq> []" by code_simp
  have post: "\<forall>l\<in>set [''second line'', ''D. d'', ''Quite so.'', ''Answer: A'', ''  third''].
      \<not> startswith (strip l) ''Explanation:''"
    by code_simp
  have fl: "filter is_continuation [''second line'', ''D. d'', ''Quite so.'', ''Answer: A'', ''  third'']
     = [''second line'', ''  third'']"
    by code_simp
  from explanation_continuation[OF ps sp st ne post] ps fl show ?thesis by simp
qed

theorem explanation_continuation_counterexample:
  "parse_questions ''Q1: S?\<newline>A. a\<newline>B. b\<newline>C. c\<newline>D. d\<newline>Answer: A\<newline>Explanation: First.\<newline>Queues are FIFO.\<newline>More.''
     = [\<lparr>question = ''S?'',
          options = [(CHR ''A'', ''a''), (CHR ''B'', ''b''), (CHR ''C'', ''c''), (CHR ''D'', ''d'')],
          answer = CHR ''A'', explanation = ''First. More.''\<rparr>]
   \<and> strip ''Queues are FIFO.'' = ''Queues are FIFO.''
   \<and> option_match ''Queues are FIFO.'' = None
   \<and> answer_match ''Queues are FIFO.'' = None
   \<and> re_search ''Queues are FIFO.'' = None
   \<and> ''First. More.'' \<noteq> ''First. Queues are FIFO. More.''"
  by code_simp

text \<open>
  C3, as amended. The option lines of a segment carry at most four distinct letters. A
  segment whose option lines carry exactly three distinct letters is dropped. A further
  option line does not cause a drop: appended to a segment that is emitted, it leaves
  the segment emitted, with its text written over the earlier text of its letter. (A
  line lettered other than A to D is no option line at all; the counterexample shows
  both kinds of fifth line in segments that are emitted.)
\<close>

theorem option_count_drop:
  "card (option_letters seg) \<le> 4
   \<and> (card (option_letters seg) = 3 \<longrightarrow> parse_segment seg = None)
   \<and> (parse_segment seg = Some q \<and> option_match (strip line) = Some (L, t)
        \<and> CHR ''\<newline>'' \<notin> set line \<longrightarrow>
      parse_segment (seg @ CHR ''\<newline>'' # line)
        = Some (q\<lparr>options := AList.update L t (options q)\<rparr>))"
proof (intro conjI impI)
  show "card (option_letters seg) \<le> 4" by (rule option_letters_card)
next
  assume three: "card (option_letters seg) = 3"
  show "parse_segment seg = None"
  proof (cases "parse_segment seg")
    case None
    then show ?thesis .
  next
    case (Some q')
    from parse_segment_letters(2)[OF Some] three show ?thesis by simp
  qed
next
  assume "parse_segment seg = Some q \<and> option_match (strip line) = Some (L, t)
        \<and> CHR ''\<newline>'' \<notin> set line"
  then show "parse_segment (seg @ CHR ''\<newline>'' # line)
        = Some (q\<lparr>options := AList.update L t (options q)\<rparr>)"
    by (simp add: parse_segment_append_option)
qed

theorem option_count_drop_witness:
  "card (option_letters ''S?\<newline>A. a\<newline>B. b\<newline>C. c\<newline>Answer: A\<newline>Explanation: x'') = 3
   \<and> parse_segment ''S?\<newline>A. a\<newline>B. b\<newline>C. c\<newline>Answer: A\<newline>Explanation: x'' = None
   \<and> card (option_letters ''S?\<newline>A. a\<newline>B. b\<newline>C. c\<newline>D. d\<newline>Answer: A\<newline>Explanation: x'') \<le> 4
   \<and> parse_segment ''S?\<newline>A. a\<newline>B. b\<newline>C. c\<newline>D. d\<newline>Answer: A\<newline>Explanation: x''
       = Some \<lparr>question = ''S?'', options = [(CHR ''A'', ''a''), (CHR ''B'', ''b''), (CHR ''C'', ''c''), (CHR ''D'', ''d'')], answer = CHR ''A'', explanation = ''x''\<rparr>
   \<and> option_match (strip ''A. again'') = Some (CHR ''A'', ''again'')
   \<and> parse_segment (''S?\<newline>A. a\<newline>B. b\<newline>C. c\<newline>D. d\<newline>Answer: A\<newline>Explanation: x'' @ CHR ''\<newline>'' # ''A. again'')
       = Some \<lparr>question = ''S?'', options = [(CHR ''A'', ''again''), (CHR ''B'', ''b''), (CHR ''C'', ''c''), (CHR ''D'', ''d'')], answer = CHR ''A'', explanation = ''x''\<rparr>"
proof -
  have c3: "card (option_letters ''S?\<newline>A. a\<newline>B. b\<newline>C. c\<newline>Answer: A\<newline>Explanation: x'') = 3"
    by code_simp
  have p4: "parse_segment ''S?\<newline>A. a\<newline>B. b\<newline>C. c\<newline>D. d\<newline>Answer: A\<newline>Explanation: x''
       = Some \<lparr>question = ''S?'', options = [(CHR ''A'', ''a''), (CHR ''B'', ''b''), (CHR ''C'', ''c''), (CHR ''D'', ''d'')], answer = CHR ''A'', explanation = ''x''\<rparr>"
    by code_simp
  have om: "option_match (strip ''A. again'') = Some (CHR ''A'', ''again'')" by code_simp
  have nl: "CHR ''\<newline>'' \<notin> set ''A. again''" by simp
  from option_count_drop[of "''S?\<newline>A. a\<newline>B. b\<newline>C. c\<newline>Answer: A\<newline>Explanation: x''"]
    option_count_drop[of "''S?\<newline>A. a\<newline>B. b\<newline>C. c\<newline>D. d\<newline>Answer: A\<newline>Explanation: x''" "\<lparr>question = ''S?'', options = [(CHR ''A'', ''a''), (CHR ''B'', ''b''), (CHR ''C'', ''c''), (CHR ''D'', ''d'')], answer = CHR ''A'', explanation = ''x''\<rparr>" "''A. again''" "CHR ''A''" "''again''"]
    c3 p4 om nl
  show ?thesis by simp
qed

theorem option_count_drop_counterexample:
  "parse_questions ''Q1: S?\<newline>A. a\<newline>B. b\<newline>C. c\<newline>D. d\<newline>A. again\<newline>Answer: A\<newline>Explanation: x''
     = [\<lparr>question = ''S?'', options = [(CHR ''A'', ''again''), (CHR ''B'', ''b''), (CHR ''C'', ''c''), (CHR ''D'', ''d'')], answer = CHR ''A'', explanation = ''x''\<rparr>]
   \<and> List.map_filter (\<lambda>l. option_match (strip l))
        (tl (str_split CHR ''\<newline>'' ''S?\<newline>A. a\<newline>B. b\<newline>C. c\<newline>D. d\<newline>A. again\<newline>Answer: A\<newline>Explanation: x''))
     = [(CHR ''A'', ''a''), (CHR ''B'', ''b''), (CHR ''C'', ''c''), (CHR ''D'', ''d''),
        (CHR ''A'', ''again'')]
   \<and> parse_questions ''Q1: S?\<newline>A. a\<newline>B. b\<newline>C. c\<newline>D. d\<newline>E. e\<newline>Answer: A\<newline>Explanation: x''
     = [\<lparr>question = ''S?'', options = [(CHR ''A'', ''a''), (CHR ''B'', ''b''), (CHR ''C'', ''c''), (CHR ''D'', ''d'')], answer = CHR ''A'', explanation = ''x''\<rparr>]"
  by code_simp

text \<open>
  C7, as amended. \<open>re.split\<close> cuts the text at every match of \<open>Q<number>:\<close> or
  \<open>Question <number>:\<close>: no piece holds a match, and the pieces put back together with
  markers between them are the text. The piece before the first match is discarded only
  when it is blank after trimming; otherwise it is parsed as a segment like any other
  and may yield a question. A text with no marker at all is one segment.
\<close>

theorem re_split_segments:
  "(\<forall>p\<in>set (re_split text). re_search p = None)
   \<and> (\<exists>ms. length (re_split text) = Suc (length ms)
         \<and> (\<forall>m\<in>set ms. question_pattern m = Some (length m))
         \<and> rejoin (re_split text) ms = text)
   \<and> (re_search text = Some (i, n) \<longrightarrow>
        parse_questions text =
          (if strip (take i text) = [] then []
           else (case parse_segment (strip (take i text)) of None \<Rightarrow> [] | Some q \<Rightarrow> [q]))
          @ parse_questions (drop (i + n) text))
   \<and> (re_search text = None \<longrightarrow>
        parse_questions text =
          (if strip text = [] then []
           else (case parse_segment (strip text) of None \<Rightarrow> [] | Some q \<Rightarrow> [q])))"
  using re_split_pieces re_split_rejoin parse_questions_first parse_questions_no_marker
  by blast

theorem re_split_segments_witness:
  "re_search ''Intro\<newline>A. a\<newline>B. b\<newline>C. c\<newline>D. d\<newline>Answer: A\<newline>Explanation: e\<newline>Q1: x'' = Some (51, 3)
   \<and> re_search ''Intro\<newline>A. a\<newline>B. b\<newline>C. c\<newline>D. d\<newline>Answer: A\<newline>Explanation: e\<newline>'' = None
   \<and> parse_questions ''Intro\<newline>A. a\<newline>B. b\<newline>C. c\<newline>D. d\<newline>Answer: A\<newline>Explanation: e\<newline>Q1: x''
     = [\<lparr>question = ''Intro'', options = [(CHR ''A'', ''a''), (CHR ''B'', ''b''), (CHR ''C'', ''c''), (CHR ''D'', ''d'')], answer = CHR ''A'', explanation = ''e''\<rparr>]
   \<and> re_search '' \<newline>Q1: S?\<newline>A. a\<newline>B. b\<newline>C. c\<newline>D. d\<newline>Answer: A\<newline>Explanation: x'' = Some (2, 3)
   \<and> strip (take 2 '' \<newline>Q1: S?\<newline>A. a\<newline>B. b\<newline>C. c\<newline>D. d\<newline>Answer: A\<newline>Explanation: x'') = []
   \<and> parse_questions '' \<newline>Q1: S?\<newline>A. a\<newline>B. b\<newline>C. c\<newline>D. d\<newline>Answer: A\<newline>Explanation: x''
     = parse_questions '' S?\<newline>A. a\<newline>B. b\<newline>C. c\<newline>D. d\<newline>Answer: A\<newline>Explanation: x''"
proof -
  have s1: "re_search ''Intro\<newline>A. a\<newline>B. b\<newline>C. c\<newline>D. d\<newline>Answer: A\<newline>Explanation: e\<newline>Q1: x'' = Some (51, 3)"
    by code_simp
  have p1: "''Intro\<newline>A. a\<newline>B. b\<newline>C. c\<newline>D. d\<newline>Answer: A\<newline>Explanation: e\<newline>''
      \<in> set (re_split ''Intro\<newline>A. a\<newline>B. b\<newline>C. c\<newline>D. d\<newline>Answer: A\<newline>Explanation: e\<newline>Q1: x'')"
    by code_simp
  have t1: "strip (take 51 ''Intro\<newline>A. a\<newline>B. b\<newline>C. c\<newline>D. d\<newline>Answer: A\<newline>Explanation: e\<newline>Q1: x'')
      = ''Intro\<newline>A. a\<newline>B. b\<newline>C. c\<newline>D. d\<newline>Answer: A\<newline>Explanation: e''"
    by code_simp
  have g1: "parse_segment ''Intro\<newline>A. a\<newline>B. b\<newline>C. c\<newline>D. d\<newline>Answer: A\<newline>Explanation: e''
      = Some \<lparr>question = ''Intro'', options = [(CHR ''A'', ''a''), (CHR ''B'', ''b''), (CHR ''C'', ''c''), (CHR ''D'', ''d'')], answer = CHR ''A'', explanation = ''e''\<rparr>"
    by code_simp
  have r1: "parse_questions (drop (51 + 3) ''Intro\<newline>A. a\<newline>B. b\<newline>C. c\<newline>D. d\<newline>Answer: A\<newline>Explanation: e\<newline>Q1: x'') = []"
    by code_simp
  have s2: "re_search '' \<newline>Q1: S?\<newline>A. a\<newline>B. b\<newline>C. c\<newline>D. d\<newline>Answer: A\<newline>Explanation: x'' = Some (2, 3)"
    by code_simp
  have t2: "strip (take 2 '' \<newline>Q1: S?\<newline>A. a\<newline>B. b\<newline>C. c\<newline>D. d\<newline>Answer: A\<newline>Explanation: x'') = []"
    by code_simp
  have d2: "drop (2 + 3) '' \<newline>Q1: S?\<newline>A. a\<newline>B. b\<newline>C. c\<newline>D. d\<newline>Answer: A\<newline>Explanation: x''
      = '' S?\<newline>A. a\<newline>B. b\<newline>C. c\<newline>D. d\<newline>Answer: A\<newline>Explanation: x''"
    by code_simp
  note a = re_split_segments[of "''Intro\<newline>A. a\<newline>B. b\<newline>C. c\<newline>D. d\<newline>Answer: A\<newline>Explanation: e\<newline>Q1: x''" 51 3]
  note b = re_split_segments[of "'' \<newline>Q1: S?\<newline>A. a\<newline>B. b\<newline>C. c\<newline>D. d\<newline>Answer: A\<newline>Explanation: x''" 2 3]
  from a p1 have n1: "re_search ''Intro\<newline>A. a\<newline>B. b\<newline>C. c\<newline>D. d\<newline>Answer: A\<newline>Explanation: e\<newline>'' = None"
    by blast
  from a s1 have "parse_questions ''Intro\<newline>A. a\<newline>B. b\<newline>C. c\<newline>D. d\<newline>Answer: A\<newline>Explanation: e\<newline>Q1: x''
     = (if strip (take 51 ''Intro\<newline>A. a\<newline>B. b\<newline>C. c\<newline>D. d\<newline>Answer: A\<newline>Explanation: e\<newline>Q1: x'') = [] then []
        else (case parse_segment (strip (take 51 ''Intro\<newline>A. a\<newline>B. b\<newline>C. c\<newline>D. d\<newline>Answer: A\<newline>Explanation: e\<newline>Q1: x'')) of None \<Rightarrow> [] | Some q \<Rightarrow> [q]))
       @ parse_questions (drop (51 + 3) ''Intro\<newline>A. a\<newline>B. b\<newline>C. c\<newline>D. d\<newline>Answer: A\<newline>Explanation: e\<newline>Q1: x'')"
    by blast
  then have c1: "parse_questions ''Intro\<newline>A. a\<newline>B. b\<newline>C. c\<newline>D. d\<newline>Answer: A\<newline>Explanation: e\<newline>Q1: x''
     = [\<lparr>question = ''Intro'', options = [(CHR ''A'', ''a''), (CHR ''B'', ''b''), (CHR ''C'', ''c''), (CHR ''D'', ''d'')], answer = CHR ''A'', explanation = ''e''\<rparr>]"
    by (simp only: t1 g1 r1) simp
  from b s2 have "parse_questions '' \<newline>Q1: S?\<newline>A. a\<newline>B. b\<newline>C. c\<newline>D. d\<newline>Answer: A\<newline>Explanation: x''
     = (if strip (take 2 '' \<newline>Q1: S?\<newline>A. a\<newline>B. b\<newline>C. c\<newline>D. d\<newline>Answer: A\<newline>Explanation: x'') = [] then []
        else (case parse_segment (strip (take 2 '' \<newline>Q1: S?\<newline>A. a\<newline>B. b\<newline>C. c\<newline>D. d\<newline>Answer: A\<newline>Explanation: x'')) of None \<Rightarrow> [] | Some q \<Rightarrow> [q]))
       @ parse_questions (drop (2 + 3) '' \<newline>Q1: S?\<newline>A. a\<newline>B. b\<newline>C. c\<newline>D. d\<newline>Answer: A\<newline>Explanation: x'')"
    by blast
  then have c2: "parse_questions '' \<newline>Q1: S?\<newline>A. a\<newline>B. b\<newline>C. c\<newline>D. d\<newline>Answer: A\<newline>Explanation: x''
     = parse_questions '' S?\<newline>A. a\<newline>B. b\<newline>C. c\<newline>D. d\<newline>Answer: A\<newline>Explanation: x''"
    by (simp only: t2 d2) simp
  from s1 n1 c1 s2 t2 c2 show ?thesis by blast
qed

theorem re_split_segments_counterexample:
  "re_search ''Intro\<newline>A. a\<newline>B. b\<newline>C. c\<newline>D. d\<newline>Answer: A\<newline>Explanation: e\<newline>Q1: x'' = Some (51, 3)
   \<and> take 51 ''Intro\<newline>A. a\<newline>B. b\<newline>C. c\<newline>D. d\<newline>Answer: A\<newline>Explanation: e\<newline>Q1: x''
     = ''Intro\<newline>A. a\<newline>B. b\<newline>C. c\<newline>D. d\<newline>Answer: A\<newline>Explanation: e\<newline>''
   \<and> parse_questions ''Intro\<newline>A. a\<newline>B. b\<newline>C. c\<newline>D. d\<newline>Answer: A\<newline>Explanation: e\<newline>Q1: x''
     = [\<lparr>question = ''Intro'', options = [(CHR ''A'', ''a''), (CHR ''B'', ''b''), (CHR ''C'', ''c''), (CHR ''D'', ''d'')], answer = CHR ''A'', explanation = ''e''\<rparr>]
   \<and> parse_questions (drop (51 + 3) ''Intro\<newline>A. a\<newline>B. b\<newline>C. c\<newline>D. d\<newline>Answer: A\<newline>Explanation: e\<newline>Q1: x'') = []"
  by code_simp

section \<open>Properties of the session and the store\<close>

text \<open>
  C4. The record \<open>run_quiz\<close> saves holds the score computed over the questions that were
  parsed and asked, and as \<open>num_questions\<close> the number that was requested. Here five
  questions are requested, the generated text holds two, and one is answered correctly
  (the answers typed are \<open>b\<close>, the invalid \<open>x\<close>, and \<open>A\<close>): the score returned and
  saved is 50 beside \<open>num_questions = 5\<close>, and no count of correct answers out of 5
  gives 50.
\<close>

theorem run_quiz_persists_requested_count:
  "run_quiz \<lparr>self_user_id = ''u1'', quiz_generator = Some (\<lambda>query template. Inr ''Q1: What is X?\<newline>A. Opt1\<newline>B. Opt2\<newline>C. Opt3\<newline>D. Opt4\<newline>Answer: B\<newline>Explanation: Because reasons.\<newline>Q2: What is Y?\<newline>A. P1\<newline>B. P2\<newline>C. P3\<newline>D. P4\<newline>Answer: C\<newline>Explanation: Why not.''), db_client = Some \<lparr>table_items = [], failing = False\<rparr>\<rparr>
      ''S3'' ''medium'' 5 [''b'', ''x'', ''A''] ''2024-05-01T10:00:00''
    = (Inr 50,
       \<lparr>self_user_id = ''u1'', quiz_generator = Some (\<lambda>query template. Inr ''Q1: What is X?\<newline>A. Opt1\<newline>B. Opt2\<newline>C. Opt3\<newline>D. Opt4\<newline>Answer: B\<newline>Explanation: Because reasons.\<newline>Q2: What is Y?\<newline>A. P1\<newline>B. P2\<newline>C. P3\<newline>D. P4\<newline>Answer: C\<newline>Explanation: Why not.''), db_client = Some \<lparr>table_items = [], failing = False\<rparr>\<rparr>\<lparr>db_client := Some \<lparr>table_items = [\<lparr>user_id = ''u1'', timestamp = ''2024-05-01T10:00:00'', topic = ''S3'', score = 50, num_questions = 5, difficulty = ''medium''\<rparr>], failing = False\<rparr>\<rparr>)
   \<and> (\<forall>c::nat. real c / real_of_int 5 * 100 \<noteq> 50)"
proof -
  have c: "create_quiz (\<lambda>query template. Inr ''Q1: What is X?\<newline>A. Opt1\<newline>B. Opt2\<newline>C. Opt3\<newline>D. Opt4\<newline>Answer: B\<newline>Explanation: Because reasons.\<newline>Q2: What is Y?\<newline>A. P1\<newline>B. P2\<newline>C. P3\<newline>D. P4\<newline>Answer: C\<newline>Explanation: Why not.'') ''S3'' ''medium'' 5
      = Inr [\<lparr>question = ''What is X?'', options = [(CHR ''A'', ''Opt1''), (CHR ''B'', ''Opt2''), (CHR ''C'', ''Opt3''), (CHR ''D'', ''Opt4'')], answer = CHR ''B'', explanation = ''Because reasons.''\<rparr>,
             \<lparr>question = ''What is Y?'', options = [(CHR ''A'', ''P1''), (CHR ''B'', ''P2''), (CHR ''C'', ''P3''), (CHR ''D'', ''P4'')], answer = CHR ''C'', explanation = ''Why not.''\<rparr>]"
    by code_simp
  have a: "ask_questions [\<lparr>question = ''What is X?'', options = [(CHR ''A'', ''Opt1''), (CHR ''B'', ''Opt2''), (CHR ''C'', ''Opt3''), (CHR ''D'', ''Opt4'')], answer = CHR ''B'', explanation = ''Because reasons.''\<rparr>,
             \<lparr>question = ''What is Y?'', options = [(CHR ''A'', ''P1''), (CHR ''B'', ''P2''), (CHR ''C'', ''P3''), (CHR ''D'', ''P4'')], answer = CHR ''C'', explanation = ''Why not.''\<rparr>] [''b'', ''x'', ''A''] 0 = Inr (1, [])"
    by code_simp
  have r: "run_quiz \<lparr>self_user_id = ''u1'', quiz_generator = Some (\<lambda>query template. Inr ''Q1: What is X?\<newline>A. Opt1\<newline>B. Opt2\<newline>C. Opt3\<newline>D. Opt4\<newline>Answer: B\<newline>Explanation: Because reasons.\<newline>Q2: What is Y?\<newline>A. P1\<newline>B. P2\<newline>C. P3\<newline>D. P4\<newline>Answer: C\<newline>Explanation: Why not.''), db_client = Some \<lparr>table_items = [], failing = False\<rparr>\<rparr>
      ''S3'' ''medium'' 5 [''b'', ''x'', ''A''] ''2024-05-01T10:00:00''
    = (Inr 50,
       \<lparr>self_user_id = ''u1'', quiz_generator = Some (\<lambda>query template. Inr ''Q1: What is X?\<newline>A. Opt1\<newline>B. Opt2\<newline>C. Opt3\<newline>D. Opt4\<newline>Answer: B\<newline>Explanation: Because reasons.\<newline>Q2: What is Y?\<newline>A. P1\<newline>B. P2\<newline>C. P3\<newline>D. P4\<newline>Answer: C\<newline>Explanation: Why not.''), db_client = Some \<lparr>table_items = [], failing = False\<rparr>\<rparr>\<lparr>db_client := Some \<lparr>table_items = [\<lparr>user_id = ''u1'', timestamp = ''2024-05-01T10:00:00'', topic = ''S3'', score = 50, num_questions = 5, difficulty = ''medium''\<rparr>], failing = False\<rparr>\<rparr>)"
    using run_quiz_completed[OF _ c a, of _ "\<lparr>table_items = [], failing = False\<rparr>" "''2024-05-01T10:00:00''"]
    by simp
  have n: "\<forall>c::nat. real c / real_of_int 5 * 100 \<noteq> 50"
  proof
    fix c :: nat
    show "real c / real_of_int 5 * 100 \<noteq> 50"
    proof
      assume "real c / real_of_int 5 * 100 = 50"
      then have "real (c * 2) = real 5" by simp
      then have "c * 2 = 5" by (simp only: of_nat_eq_iff)
      then show False by presburger
    qed
  qed
  from r n show ?thesis by blast
qed

text \<open>
  C8. When the store answers the query and holds no item of the user and the topic,
  \<open>get_topic_statistics\<close> returns the statistics with zero attempts and every number
  zero; it raises nothing.
\<close>

theorem get_topic_statistics_no_data:
  assumes "\<not> failing db"
    and "\<forall>x\<in>set (table_items db). \<not> (user_id x = uid \<and> topic x = tp)"
  shows "get_topic_statistics db uid tp
    = Inr \<lparr>attempts = 0, average_score = 0, highest_score = 0, lowest_score = 0, total_questions = 0\<rparr>"
proof -
  from assms(2) have "filter (\<lambda>x. user_id x = uid \<and> topic x = tp) (table_items db) = []"
    by (simp add: filter_empty_conv)
  with assms(1) show ?thesis
    by (simp add: get_topic_statistics_def query_topic_index_def)
qed

theorem get_topic_statistics_no_data_witness:
  "get_topic_statistics \<lparr>table_items = [\<lparr>user_id = ''u1'', timestamp = ''2024-05-01T10:00:00'', topic = ''EC2'', score = 60, num_questions = 5, difficulty = ''medium''\<rparr>], failing = False\<rparr> ''u1'' ''S3''
    = Inr \<lparr>attempts = 0, average_score = 0, highest_score = 0, lowest_score = 0, total_questions = 0\<rparr>"
proof -
  have f: "\<not> failing \<lparr>table_items = [\<lparr>user_id = ''u1'', timestamp = ''2024-05-01T10:00:00'', topic = ''EC2'', score = 60, num_questions = 5, difficulty = ''medium''\<rparr>], failing = False\<rparr>" by simp
  have n: "\<forall>x\<in>set (table_items \<lparr>table_items = [\<lparr>user_id = ''u1'', timestamp = ''2024-05-01T10:00:00'', topic = ''EC2'', score = 60, num_questions = 5, difficulty = ''medium''\<rparr>], failing = False\<rparr>). \<not> (user_id x = ''u1'' \<and> topic x = ''S3'')"
    by simp
  from get_topic_statistics_no_data[OF f n] show ?thesis .
qed

text \<open>
  C9, as amended. When the identity file does not exist, or holds an object with a
  \<open>user_id\<close> entry, the first call returns an identifier, after every number of calls
  the file holds an object with that identifier under \<open>user_id\<close>, and every later call
  returns it. (Nothing is said here of a file that holds an object without the entry:
  there each call returns a fresh identifier and writes nothing, as the counterexample
  shows; on a file that is not JSON the call raises.)
\<close>

theorem user_id_reused:
  assumes "config_file w = None
    \<or> (\<exists>entries v. config_file w = Some (Parsed (JObject entries))
          \<and> map_of entries ''user_id'' = Some v)"
  shows "\<exists>v. fst (get_or_create_user_id uuid4 w) = Inr v
    \<and> (\<forall>k. fst (get_or_create_user_id uuid4 (after_calls uuid4 (Suc k) w)) = Inr v
          \<and> (\<exists>entries. config_file (after_calls uuid4 (Suc k) w) = Some (Parsed (JObject entries))
                \<and> map_of entries ''user_id'' = Some v))"
proof -
  let ?w1 = "snd (get_or_create_user_id uuid4 w)"
  from assms obtain entries v where
    r: "fst (get_or_create_user_id uuid4 w) = Inr v"
    and f: "config_file ?w1 = Some (Parsed (JObject entries))"
    and m: "map_of entries ''user_id'' = Some v"
  proof
    assume n: "config_file w = None"
    show ?thesis
      by (rule that[of "JString (uuid4 (uuid_count w))"
            "[(''user_id'', JString (uuid4 (uuid_count w)))]"])
         (simp_all add: get_user_id_created[OF n])
  next
    assume "\<exists>entries v. config_file w = Some (Parsed (JObject entries))
          \<and> map_of entries ''user_id'' = Some v"
    then obtain entries v where e: "config_file w = Some (Parsed (JObject entries))"
      "map_of entries ''user_id'' = Some v" by blast
    show ?thesis
      by (rule that[of v entries]) (simp_all add: get_user_id_stored[OF e] e)
  qed
  have "\<And>k. fst (get_or_create_user_id uuid4 (after_calls uuid4 (Suc k) w)) = Inr v
          \<and> (\<exists>entries. config_file (after_calls uuid4 (Suc k) w) = Some (Parsed (JObject entries))
                \<and> map_of entries ''user_id'' = Some v)"
  proof -
    fix k
    have c: "config_file (after_calls uuid4 (Suc k) w) = Some (Parsed (JObject entries))"
      using after_calls_stored[OF f m, of uuid4 k] by simp
    from get_user_id_stored[OF c m] c m
    show "fst (get_or_create_user_id uuid4 (after_calls uuid4 (Suc k) w)) = Inr v
          \<and> (\<exists>entries. config_file (after_calls uuid4 (Suc k) w) = Some (Parsed (JObject entries))
                \<and> map_of entries ''user_id'' = Some v)"
      by simp
  qed
  with r show ?thesis by blast
qed

theorem user_id_reused_witness:
  "config_file \<lparr>config_file = None, uuid_count = 0\<rparr> = None
   \<and> fst (get_or_create_user_id (\<lambda>k. if k = 0 then ''1b4e28ba-2fa1-41d2-883f-0016d3cca427'' else ''6fa459ea-ee8a-4ca4-894e-db77e160355e'') \<lparr>config_file = None, uuid_count = 0\<rparr>)
     = Inr (JString ''1b4e28ba-2fa1-41d2-883f-0016d3cca427'')
   \<and> fst (get_or_create_user_id (\<lambda>k. if k = 0 then ''1b4e28ba-2fa1-41d2-883f-0016d3cca427'' else ''6fa459ea-ee8a-4ca4-894e-db77e160355e'') (after_calls (\<lambda>k. if k = 0 then ''1b4e28ba-2fa1-41d2-883f-0016d3cca427'' else ''6fa459ea-ee8a-4ca4-894e-db77e160355e'') 1 \<lparr>config_file = None, uuid_count = 0\<rparr>))
     = Inr (JString ''1b4e28ba-2fa1-41d2-883f-0016d3cca427'')
   \<and> fst (get_or_create_user_id (\<lambda>k. if k = 0 then ''1b4e28ba-2fa1-41d2-883f-0016d3cca427'' else ''6fa459ea-ee8a-4ca4-894e-db77e160355e'') (after_calls (\<lambda>k. if k = 0 then ''1b4e28ba-2fa1-41d2-883f-0016d3cca427'' else ''6fa459ea-ee8a-4ca4-894e-db77e160355e'') 2 \<lparr>config_file = None, uuid_count = 0\<rparr>))
     = Inr (JString ''1b4e28ba-2fa1-41d2-883f-0016d3cca427'')
   \<and> config_file (after_calls (\<lambda>k. if k = 0 then ''1b4e28ba-2fa1-41d2-883f-0016d3cca427'' else ''6fa459ea-ee8a-4ca4-894e-db77e160355e'') 2 \<lparr>config_file = None, uuid_count = 0\<rparr>)
     = Some (Parsed (JObject [(''user_id'', JString ''1b4e28ba-2fa1-41d2-883f-0016d3cca427'')]))"
proof -
  have n: "config_file \<lparr>config_file = None, uuid_count = 0\<rparr> = None
    \<or> (\<exists>entries v. config_file \<lparr>config_file = None, uuid_count = 0\<rparr> = Some (Parsed (JObject entries))
          \<and> map_of entries ''user_id'' = Some v)"
    by simp
  have first: "fst (get_or_create_user_id (\<lambda>k. if k = 0 then ''1b4e28ba-2fa1-41d2-883f-0016d3cca427'' else ''6fa459ea-ee8a-4ca4-894e-db77e160355e'') \<lparr>config_file = None, uuid_count = 0\<rparr>)
     = Inr (JString ''1b4e28ba-2fa1-41d2-883f-0016d3cca427'')"
    by (simp add: get_or_create_user_id_def Let_def)
  from user_id_reused[OF n, of "(\<lambda>k. if k = 0 then ''1b4e28ba-2fa1-41d2-883f-0016d3cca427'' else ''6fa459ea-ee8a-4ca4-894e-db77e160355e'')"] obtain v where
    v: "fst (get_or_create_user_id (\<lambda>k. if k = 0 then ''1b4e28ba-2fa1-41d2-883f-0016d3cca427'' else ''6fa459ea-ee8a-4ca4-894e-db77e160355e'') \<lparr>config_file = None, uuid_count = 0\<rparr>) = Inr v"
    and a: "\<And>k. fst (get_or_create_user_id (\<lambda>k. if k = 0 then ''1b4e28ba-2fa1-41d2-883f-0016d3cca427'' else ''6fa459ea-ee8a-4ca4-894e-db77e160355e'') (after_calls (\<lambda>k. if k = 0 then ''1b4e28ba-2fa1-41d2-883f-0016d3cca427'' else ''6fa459ea-ee8a-4ca4-894e-db77e160355e'') (Suc k) \<lparr>config_file = None, uuid_count = 0\<rparr>)) = Inr v"
    and b: "\<And>k. \<exists>entries. config_file (after_calls (\<lambda>k. if k = 0 then ''1b4e28ba-2fa1-41d2-883f-0016d3cca427'' else ''6fa459ea-ee8a-4ca4-894e-db77e160355e'') (Suc k) \<lparr>config_file = None, uuid_count = 0\<rparr>) = Some (Parsed (JObject entries))
                \<and> map_of entries ''user_id'' = Some v"
    by blast
  from v first have veq: "v = JString ''1b4e28ba-2fa1-41d2-883f-0016d3cca427''" by simp
  have c2: "config_file (after_calls (\<lambda>k. if k = 0 then ''1b4e28ba-2fa1-41d2-883f-0016d3cca427'' else ''6fa459ea-ee8a-4ca4-894e-db77e160355e'') 2 \<lparr>config_file = None, uuid_count = 0\<rparr>)
     = Some (Parsed (JObject [(''user_id'', JString ''1b4e28ba-2fa1-41d2-883f-0016d3cca427'')]))"
    by (simp add: numeral_2_eq_2 get_or_create_user_id_def Let_def)
  from first a[of 0] a[of 1] veq c2 show ?thesis
    by (simp add: numeral_2_eq_2)
qed

theorem user_id_reused_counterexample:
  "get_or_create_user_id (\<lambda>k. if k = 0 then ''1b4e28ba-2fa1-41d2-883f-0016d3cca427'' else ''6fa459ea-ee8a-4ca4-894e-db77e160355e'') \<lparr>config_file = Some (Parsed (JObject [])), uuid_count = 0\<rparr>
    = (Inr (JString ''1b4e28ba-2fa1-41d2-883f-0016d3cca427''), \<lparr>config_file = Some (Parsed (JObject [])), uuid_count = 1\<rparr>)
   \<and> get_or_create_user_id (\<lambda>k. if k = 0 then ''1b4e28ba-2fa1-41d2-883f-0016d3cca427'' else ''6fa459ea-ee8a-4ca4-894e-db77e160355e'') \<lparr>config_file = Some (Parsed (JObject [])), uuid_count = 1\<rparr>
    = (Inr (JString ''6fa459ea-ee8a-4ca4-894e-db77e160355e''), \<lparr>config_file = Some (Parsed (JObject [])), uuid_count = 2\<rparr>)
   \<and> ''1b4e28ba-2fa1-41d2-883f-0016d3cca427'' \<noteq> ''6fa459ea-ee8a-4ca4-894e-db77e160355e''
   \<and> get_or_create_user_id (\<lambda>k. if k = 0 then ''1b4e28ba-2fa1-41d2-883f-0016d3cca427'' else ''6fa459ea-ee8a-4ca4-894e-db77e160355e'') \<lparr>config_file = Some Unparsable, uuid_count = 0\<rparr>
    = (Inl JSONDecodeError, \<lparr>config_file = Some Unparsable, uuid_count = 0\<rparr>)"
  by (simp add: get_or_create_user_id_def Let_def)

text \<open>
  C10. When the generator is set up and returns an empty list of questions, \<open>run_quiz\<close>
  raises \<open>ZeroDivisionError\<close> and returns no score; the application, its result store
  included, is as it was before the call, so nothing has been saved.
\<close>

theorem run_quiz_no_questions:
  assumes "quiz_generator self = Some kb"
    and "create_quiz kb tp diff n = Inr []"
  shows "run_quiz self tp diff n inp now = (Inl ZeroDivisionError, self)"
  using assms by (simp add: run_quiz_def)

theorem run_quiz_no_questions_witness:
  "create_quiz (\<lambda>query template. Inr ''No questions could be generated.'') ''EC2'' ''medium'' 5 = Inr []
   \<and> run_quiz \<lparr>self_user_id = ''u1'', quiz_generator = Some (\<lambda>query template. Inr ''No questions could be generated.''), db_client = Some \<lparr>table_items = [], failing = False\<rparr>\<rparr>
        ''EC2'' ''medium'' 5 [''A'', ''B''] ''2024-05-01T10:00:00''
     = (Inl ZeroDivisionError,
        \<lparr>self_user_id = ''u1'', quiz_generator = Some (\<lambda>query template. Inr ''No questions could be generated.''), db_client = Some \<lparr>table_items = [], failing = False\<rparr>\<rparr>)"
proof -
  have c: "create_quiz (\<lambda>query template. Inr ''No questions could be generated.'') ''EC2'' ''medium'' 5 = Inr []"
    by code_simp
  have g: "quiz_generator \<lparr>self_user_id = ''u1'', quiz_generator = Some (\<lambda>query template. Inr ''No questions could be generated.''), db_client = Some \<lparr>table_items = [], failing = False\<rparr>\<rparr>
      = Some (\<lambda>query template. Inr ''No questions could be generated.'')"
    by simp
  from run_quiz_no_questions[OF g c] c show ?thesis by simp
qed

end
